theory Spec2Isabelle
  imports Main "HOL-Library.Multiset"
begin

section \<open>Dimension descriptors\<close>

text \<open>
  The dimension classes live in \<^verbatim>\<open>hftools/dataset/dim.py\<close>, which is not among the
  sources; \<^verbatim>\<open>arrayobj.py\<close> and the package's \<^verbatim>\<open>__init__.py\<close> import the names below.
  What \<^verbatim>\<open>arrayobj.py\<close> reads of a descriptor is its \<^verbatim>\<open>name\<close>, its class, its
  coordinates \<^verbatim>\<open>data\<close>, its \<^verbatim>\<open>unit\<close> and the class attribute \<^verbatim>\<open>sortprio\<close>.
  The class hierarchy and the priorities are parameters of the model:
  \<^item> \<open>sub c d\<close> says that class \<open>c\<close> is a proper subclass of class \<open>d\<close>;
  \<^item> \<open>prio c\<close> is the \<^verbatim>\<open>sortprio\<close> of class \<open>c\<close>.
  Coordinates are integer labels.
\<close>

datatype dimclass =
  DimBase | DimSweep | DimRep | DimMatrix | DimMatrix_i | DimMatrix_j
  | DimUMatrix_i | DimUMatrix_j | DimPartial | DimAnonymous

type_synonym hierarchy = "dimclass \<Rightarrow> dimclass \<Rightarrow> bool"

record dim =
  name :: string
  cls :: dimclass
  data :: "int list"
  unit :: "string option"

datatype error =
  IndexError | KeyError | ValueError | AxisError | AttributeError | TypeError
  | HFArrayShapeDimsMismatchError | DimensionMismatchError | HFArrayError

text \<open>Sequencing of calls that may raise: the first exception ends the computation.\<close>

definition and_then :: "error + 'a \<Rightarrow> ('a \<Rightarrow> error + 'b) \<Rightarrow> error + 'b" where
  "and_then m f = (case m of Inl e \<Rightarrow> Inl e | Inr x \<Rightarrow> f x)"

text \<open>A list comprehension whose element expression may raise.\<close>

fun map_err :: "('a \<Rightarrow> error + 'b) \<Rightarrow> 'a list \<Rightarrow> error + 'b list" where
  "map_err f [] = Inr []"
| "map_err f (x # xs) =
     (case f x of Inl e \<Rightarrow> Inl e
      | Inr y \<Rightarrow> (case map_err f xs of Inl e \<Rightarrow> Inl e | Inr ys \<Rightarrow> Inr (y # ys)))"

text \<open>
  Subscription of a tuple by an integer, as in \<^verbatim>\<open>self.dims[i]\<close>: positions \<open>-len\<close> to
  \<open>-1\<close> address the tuple from its end, and \<^verbatim>\<open>IndexError\<close> is raised outside
  \<open>[-len, len)\<close>.
\<close>

definition py_index :: "'a list \<Rightarrow> int \<Rightarrow> error + 'a" where
  "py_index xs i =
     (if 0 \<le> i \<and> i < int (length xs) then Inr (xs ! nat i)
      else if i < 0 \<and> - int (length xs) \<le> i then Inr (xs ! nat (int (length xs) + i))
      else Inl IndexError)"

text \<open>
  \<^verbatim>\<open>tuple.index\<close> and \<^verbatim>\<open>list.index\<close>: the first position whose element is the value
  looked for or compares equal to it, or \<^verbatim>\<open>ValueError\<close>. \<open>deq\<close> is \<^verbatim>\<open>==\<close> on the elements;
  for descriptors \<^verbatim>\<open>dim.py\<close> decides it, so it is a parameter.
\<close>

fun index_from :: "('a \<Rightarrow> 'a \<Rightarrow> bool) \<Rightarrow> nat \<Rightarrow> 'a list \<Rightarrow> 'a \<Rightarrow> error + nat" where
  "index_from deq k [] v = Inl ValueError"
| "index_from deq k (x # xs) v =
     (if x = v \<or> deq x v then Inr k else index_from deq (Suc k) xs v)"

definition py_list_index :: "('a \<Rightarrow> 'a \<Rightarrow> bool) \<Rightarrow> 'a list \<Rightarrow> 'a \<Rightarrow> error + nat" where
  "py_list_index deq xs v = index_from deq 0 xs v"

text \<open>\<^verbatim>\<open>isinstance(x, c)\<close>: the class of \<open>x\<close> is \<open>c\<close> or one of its subclasses.\<close>

definition isinstance :: "hierarchy \<Rightarrow> dim \<Rightarrow> dimclass \<Rightarrow> bool" where
  "isinstance sub x c = (cls x = c \<or> sub (cls x) c)"

text \<open>
  The test shared by \<^verbatim>\<open>__contains__\<close>, \<^verbatim>\<open>get_matching_dim\<close> and \<^verbatim>\<open>matching_index\<close> of
  \<^verbatim>\<open>Dims\<close> and \<^verbatim>\<open>DimsList\<close>:
  \<^verbatim>\<open>x.name == value.name and isinstance(x, value.__class__)\<close>.
\<close>

definition same_dim :: "hierarchy \<Rightarrow> dim \<Rightarrow> dim \<Rightarrow> bool" where
  "same_dim sub x v = (name x = name v \<and> isinstance sub x (cls v))"

section \<open>Dimension collections\<close>

text \<open>\<^verbatim>\<open>Dims.__contains__\<close> and \<^verbatim>\<open>DimsList.__contains__\<close>, for a descriptor.\<close>

fun contains :: "hierarchy \<Rightarrow> dim list \<Rightarrow> dim \<Rightarrow> bool" where
  "contains sub [] v = False"
| "contains sub (x # xs) v = (if same_dim sub x v then True else contains sub xs v)"

text \<open>\<^verbatim>\<open>get_matching_dim\<close>: the first member that matches, or \<^verbatim>\<open>KeyError\<close>.\<close>

fun get_matching_dim :: "hierarchy \<Rightarrow> dim list \<Rightarrow> dim \<Rightarrow> error + dim" where
  "get_matching_dim sub [] v = Inl KeyError"
| "get_matching_dim sub (x # xs) v =
     (if same_dim sub x v then Inr x else get_matching_dim sub xs v)"

text \<open>\<^verbatim>\<open>matching_index\<close>: the position of the first member that matches, or \<^verbatim>\<open>KeyError\<close>.\<close>

fun matching_index_from :: "hierarchy \<Rightarrow> nat \<Rightarrow> dim list \<Rightarrow> dim \<Rightarrow> error + nat" where
  "matching_index_from sub idx [] v = Inl KeyError"
| "matching_index_from sub idx (x # xs) v =
     (if same_dim sub x v then Inr idx else matching_index_from sub (Suc idx) xs v)"

definition matching_index :: "hierarchy \<Rightarrow> dim list \<Rightarrow> dim \<Rightarrow> error + nat" where
  "matching_index sub ds v = matching_index_from sub 0 ds v"

section \<open>The numeric buffer\<close>

text \<open>
  The host runtime's \<^verbatim>\<open>ndarray\<close>: a shape and the elements in row-major (C) order of the
  indices. Views and strides are not modelled: an array is its logical contents.
  The labeled array \<^verbatim>\<open>_hfarray\<close> subclasses \<^verbatim>\<open>ndarray\<close> and adds the attribute
  \<^verbatim>\<open>_dims\<close> (read through the property \<^verbatim>\<open>dims\<close>); the attributes \<^verbatim>\<open>unit\<close> and
  \<^verbatim>\<open>outputformat\<close>, which only rendering reads, are left out.
\<close>

record 'a ndarray =
  shape :: "nat list"
  elems :: "'a list"

record 'a hfarray = "'a ndarray" +
  dims :: "dim list"

definition ndim :: "('a, 'z) ndarray_scheme \<Rightarrow> nat" where
  "ndim a = length (shape a)"

text \<open>\<^verbatim>\<open>np.asarray(self)\<close>: the buffer without its labels.\<close>

definition asarray :: "('a, 'z) ndarray_scheme \<Rightarrow> 'a ndarray" where
  "asarray a = \<lparr>shape = shape a, elems = elems a\<rparr>"

text \<open>Every buffer of the runtime holds as many elements as its shape says.\<close>

definition buffer_ok :: "('a, 'z) ndarray_scheme \<Rightarrow> bool" where
  "buffer_ok a = (length (elems a) = prod_list (shape a))"

text \<open>All index tuples of a shape in row-major order, and the offset of an index tuple.\<close>

fun indices :: "nat list \<Rightarrow> nat list list" where
  "indices [] = [[]]"
| "indices (n # s) = concat (map (\<lambda>i. map ((#) i) (indices s)) [0..<n])"

fun ravel :: "nat list \<Rightarrow> nat list \<Rightarrow> nat" where
  "ravel (n # s) (i # js) = i * prod_list s + ravel s js"
| "ravel s js = 0"

definition item :: "('a, 'z) ndarray_scheme \<Rightarrow> nat list \<Rightarrow> 'a" where
  "item a idx = elems a ! ravel (shape a) idx"

text \<open>
  The runtime's axis normalisation: an axis in \<open>[-n, n)\<close>, negative ones counted from the
  end; anything else raises \<^verbatim>\<open>AxisError\<close>.
\<close>

definition normalize_axis :: "nat \<Rightarrow> int \<Rightarrow> error + nat" where
  "normalize_axis n i =
     (if 0 \<le> i \<and> i < int n then Inr (nat i)
      else if - int n \<le> i \<and> i < 0 then Inr (nat (i + int n))
      else Inl AxisError)"

text \<open>
  Axis permutation: axis \<open>k\<close> of the result is axis \<open>p ! k\<close> of the source, so the element at
  index \<open>j\<close> of the result is the element of the source at the index \<open>i\<close> with
  \<open>i ! (p ! k) = j ! k\<close>.
\<close>

fun position :: "'a list \<Rightarrow> 'a \<Rightarrow> nat" where
  "position [] v = 0"
| "position (x # xs) v = (if x = v then 0 else Suc (position xs v))"

definition source_index :: "nat list \<Rightarrow> nat list \<Rightarrow> nat list" where
  "source_index p j = map (\<lambda>m. j ! position p m) [0..<length p]"

definition permute_axes :: "('a, 'z) ndarray_scheme \<Rightarrow> nat list \<Rightarrow> ('a, 'z) ndarray_scheme" where
  "permute_axes a p =
     a\<lparr>shape := map (\<lambda>k. shape a ! k) p,
       elems := map (\<lambda>j. item a (source_index p j)) (indices (map (\<lambda>k. shape a ! k) p))\<rparr>"

text \<open>
  How the runtime reads a tuple of axes (for \<^verbatim>\<open>transpose\<close>, \<^verbatim>\<open>squeeze\<close> and the
  reductions): one axis after the other is normalised, and an axis met before raises
  \<^verbatim>\<open>ValueError\<close>.
\<close>

fun convert_axes :: "nat \<Rightarrow> nat list \<Rightarrow> int list \<Rightarrow> error + nat list" where
  "convert_axes n seen [] = Inr []"
| "convert_axes n seen (ax # rest) =
     and_then (normalize_axis n ax) (\<lambda>k.
       if k \<in> set seen then Inl ValueError
       else and_then (convert_axes n (k # seen) rest) (\<lambda>ks. Inr (k # ks)))"

text \<open>
  \<^verbatim>\<open>ndarray.transpose(self, *axes)\<close>: without axes the axes are reversed; otherwise the axes
  must be as many as the array has, each in range, and no axis twice.
\<close>

definition ndarray_transpose ::
  "('a, 'z) ndarray_scheme \<Rightarrow> int list \<Rightarrow> error + ('a, 'z) ndarray_scheme" where
  "ndarray_transpose a axes =
     (if axes = [] then Inr (permute_axes a (rev [0..<ndim a]))
      else if length axes \<noteq> ndim a then Inl ValueError
      else and_then (convert_axes (ndim a) [] axes) (\<lambda>p. Inr (permute_axes a p)))"

section \<open>The labeled array\<close>

text \<open>What a caller may hand to the constructor or to an operator.\<close>

datatype 'a pyobj = Number 'a | NdArray "'a ndarray" | HfArray "'a hfarray"

text \<open>\<^verbatim>\<open>np.array(data)\<close>: a number becomes a buffer of rank 0.\<close>

fun np_array :: "'a pyobj \<Rightarrow> 'a ndarray" where
  "np_array (Number x) = \<lparr>shape = [], elems = [x]\<rparr>"
| "np_array (NdArray a) = a"
| "np_array (HfArray a) = asarray a"

text \<open>\<^verbatim>\<open>_hfarray.verify_dimension\<close>.\<close>

definition verify_dimension :: "'a hfarray \<Rightarrow> error + 'a hfarray" where
  "verify_dimension self =
     (if length (dims self) \<noteq> ndim self then Inl HFArrayShapeDimsMismatchError else Inr self)"

text \<open>
  \<^verbatim>\<open>_hfarray.default_dim\<close> and the defaults the constructor builds from it:
  \<^verbatim>\<open>x.__class__(x.name, range(size))\<close> for each axis, \<^verbatim>\<open>zip\<close> stopping at the shorter.
\<close>

definition default_dim :: "dim list" where
  "default_dim = [\<lparr>name = ''freq'', cls = DimSweep, data = [0], unit = None\<rparr>,
                  \<lparr>name = ''rep'', cls = DimRep, data = [0], unit = None\<rparr>]"

definition default_dims_for :: "nat list \<Rightarrow> dim list" where
  "default_dims_for shp =
     map (\<lambda>(x, size). \<lparr>name = name x, cls = cls x, data = map int [0..<size], unit = None\<rparr>)
       (zip default_dim shp)"

text \<open>
  \<^verbatim>\<open>_hfarray.__new__(subtype, data, dims=None, ...)\<close>, which \<^verbatim>\<open>hfarray.__new__\<close> calls for
  data without \<^verbatim>\<open>__hfarray__\<close>.
\<close>

definition hfarray_new :: "'a pyobj \<Rightarrow> dim list option \<Rightarrow> error + 'a hfarray" where
  "hfarray_new data_arg dims_arg =
     (let subarr = np_array data_arg in
      and_then
        (case dims_arg of
           Some ds \<Rightarrow> Inr ds
         | None \<Rightarrow>
             (case data_arg of
                HfArray a \<Rightarrow> Inr (dims a)
              | _ \<Rightarrow>
                  if ndim subarr = 0 then Inr []
                  else if length (shape subarr) \<le> length default_dim
                  then Inr (default_dims_for (shape subarr))
                  else Inl DimensionMismatchError))
        (\<lambda>ds. verify_dimension \<lparr>shape = shape subarr, elems = elems subarr, dims = ds\<rparr>))"

text \<open>
  \<^verbatim>\<open>_hfarray.transpose(self, *order)\<close>. The buffer is transposed first, then the list of
  descriptors is built, then the constructor runs.
\<close>

definition transpose_hf :: "'a hfarray \<Rightarrow> int list \<Rightarrow> error + 'a hfarray" where
  "transpose_hf self order_arg =
     (let order = (if order_arg = [] then rev (map int [0..<ndim self]) else order_arg) in
      and_then (ndarray_transpose self order) (\<lambda>r.
      and_then (map_err (py_index (dims self)) order) (\<lambda>ds.
      hfarray_new (HfArray r) (Some ds))))"

text \<open>
  The setter of the property \<^verbatim>\<open>dims\<close>: \<^verbatim>\<open>self._dims = Dims(value)\<close>. It has no branch
  that raises.
\<close>

definition dims_setter :: "'a hfarray \<Rightarrow> dim list \<Rightarrow> error + 'a hfarray" where
  "dims_setter self v = Inr (self\<lparr>dims := v\<rparr>)"

text \<open>
  \<^verbatim>\<open>_hfarray.dims_index(self, name, cls=None)\<close>. Callers pass a string or, in \<^verbatim>\<open>t\<close>, a
  descriptor; \<open>eq\<close> is the comparison \<^verbatim>\<open>ax.name == name\<close> for the kind of key passed.
\<close>

fun dims_index_from ::
  "(string \<Rightarrow> 'k \<Rightarrow> bool) \<Rightarrow> hierarchy \<Rightarrow> nat \<Rightarrow> dim list \<Rightarrow> 'k \<Rightarrow> dimclass option
     \<Rightarrow> error + nat" where
  "dims_index_from eq sub idx [] key c = Inl IndexError"
| "dims_index_from eq sub idx (ax # rest) key c =
     (if eq (name ax) key
      then (case c of
              None \<Rightarrow> Inr idx
            | Some k \<Rightarrow> if isinstance sub ax k then Inr idx
                       else dims_index_from eq sub (Suc idx) rest key c)
      else dims_index_from eq sub (Suc idx) rest key c)"

definition dims_index ::
  "(string \<Rightarrow> 'k \<Rightarrow> bool) \<Rightarrow> hierarchy \<Rightarrow> 'a hfarray \<Rightarrow> 'k \<Rightarrow> dimclass option \<Rightarrow> error + nat" where
  "dims_index eq sub self key c = dims_index_from eq sub 0 (dims self) key c"

text \<open>
  The property \<^verbatim>\<open>t\<close>. Its loop keeps the last \<^verbatim>\<open>DimMatrix_i\<close> and the last \<^verbatim>\<open>DimMatrix_j\<close>
  descriptor. \<open>eqd\<close> is \<^verbatim>\<open>ax.name == di\<close>, the comparison of a name with a descriptor, which
  \<^verbatim>\<open>dim.py\<close> decides.
\<close>

fun matrix_dims ::
  "hierarchy \<Rightarrow> dim option \<times> dim option \<Rightarrow> dim list \<Rightarrow> dim option \<times> dim option" where
  "matrix_dims sub (di, dj) [] = (di, dj)"
| "matrix_dims sub (di, dj) (d # rest) =
     (if isinstance sub d DimMatrix_i then matrix_dims sub (Some d, dj) rest
      else if isinstance sub d DimMatrix_j then matrix_dims sub (di, Some d) rest
      else matrix_dims sub (di, dj) rest)"

definition t_hf :: "(string \<Rightarrow> dim \<Rightarrow> bool) \<Rightarrow> hierarchy \<Rightarrow> 'a hfarray \<Rightarrow> error + 'a hfarray" where
  "t_hf eqd sub self =
     (case matrix_dims sub (None, None) (dims self) of
        (Some di, Some dj) \<Rightarrow>
          and_then (dims_index eqd sub self di None) (\<lambda>i.
          and_then (dims_index eqd sub self dj None) (\<lambda>j.
          let order = map int [0..<ndim self] in
          if \<not> (i < length order \<and> j < length order) then Inl IndexError
          else
            and_then (transpose_hf self (order[i := order ! j, j := order ! i])) (\<lambda>out.
            let newdims = (dims out)
                  [i := \<lparr>name = name di, cls = DimMatrix_i, data = data dj, unit = None\<rparr>,
                   j := \<lparr>name = name dj, cls = DimMatrix_j, data = data di, unit = None\<rparr>]
            in dims_setter out newdims)))
      | _ \<Rightarrow> Inr self)"

text \<open>
  The inverse of a permutation \<open>p\<close> of \<open>[0..<n]\<close>, as a caller computes it
  (\<^verbatim>\<open>argsort\<close>): entry \<open>k\<close> is the position of \<open>k\<close> in \<open>p\<close>.
\<close>

definition inverse_permutation :: "nat list \<Rightarrow> nat list" where
  "inverse_permutation p = map (position p) [0..<length p]"

section \<open>Alignment\<close>

text \<open>
  \<^verbatim>\<open>dims_union(*a)\<close>. The inner loop appends to \<^verbatim>\<open>newinfo\<close> each descriptor of an operand that
  \<^verbatim>\<open>newinfo\<close> does not contain yet; the outer loop runs over the operands after the first.
  \<^verbatim>\<open>list.sort(key=...)\<close> is the runtime's stable sort.
\<close>

fun append_missing :: "hierarchy \<Rightarrow> dim list \<Rightarrow> dim list \<Rightarrow> dim list" where
  "append_missing sub newinfo [] = newinfo"
| "append_missing sub newinfo (d # rest) =
     (if \<not> contains sub newinfo d then append_missing sub (newinfo @ [d]) rest
      else append_missing sub newinfo rest)"

fun union_loop :: "hierarchy \<Rightarrow> dim list \<Rightarrow> 'a hfarray list \<Rightarrow> dim list" where
  "union_loop sub newinfo [] = newinfo"
| "union_loop sub newinfo (B # rest) = union_loop sub (append_missing sub newinfo (dims B)) rest"

definition sortprio :: "(dimclass \<Rightarrow> int) \<Rightarrow> dim \<Rightarrow> int" where
  "sortprio prio x = prio (cls x)"

definition dims_union :: "hierarchy \<Rightarrow> (dimclass \<Rightarrow> int) \<Rightarrow> 'a hfarray list \<Rightarrow> error + dim list" where
  "dims_union sub prio a =
     (case a of
        [] \<Rightarrow> Inl IndexError
      | A # rest \<Rightarrow> Inr (sort_key (sortprio prio) (union_loop sub (dims A) rest)))"

text \<open>
  \<^verbatim>\<open>_hfarray.view(self)\<close> without a type: a new labeled array on the same data, built by the
  constructor.
\<close>

definition view_hf :: "'a hfarray \<Rightarrow> error + 'a hfarray" where
  "view_hf self = hfarray_new (HfArray self) (Some (dims self))"

text \<open>
  Assignment to \<^verbatim>\<open>shape\<close> of a buffer: the runtime raises \<^verbatim>\<open>ValueError\<close> when the sizes
  differ. It also refuses a reshape of a transposed view that would need a copy; inserting
  axes of length 1, which is all \<^verbatim>\<open>change_shape\<close> asks for when the sizes agree, never
  needs one.
\<close>

definition shape_setter ::
  "('a, 'z) ndarray_scheme \<Rightarrow> nat list \<Rightarrow> error + ('a, 'z) ndarray_scheme" where
  "shape_setter a s =
     (if prod_list s = prod_list (shape a) then Inr (a\<lparr>shape := s\<rparr>) else Inl ValueError)"

text \<open>
  \<^verbatim>\<open>change_shape(x, newdims)\<close>. Its loop builds \<^verbatim>\<open>newselfshape\<close> and \<^verbatim>\<open>neworder\<close>; then the
  view is transposed, reshaped and relabeled.
\<close>

fun shape_and_order :: "hierarchy \<Rightarrow> 'a hfarray \<Rightarrow> dim list \<Rightarrow> error + (nat list \<times> int list)" where
  "shape_and_order sub x [] = Inr ([], [])"
| "shape_and_order sub x (d # rest) =
     (if contains sub (dims x) d
      then and_then (matching_index sub (dims x) d) (\<lambda>i.
           and_then (py_index (shape x) (int i)) (\<lambda>n.
           and_then (shape_and_order sub x rest) (\<lambda>(newselfshape, neworder).
           Inr (n # newselfshape, int i # neworder))))
      else and_then (shape_and_order sub x rest) (\<lambda>(newselfshape, neworder).
           Inr (1 # newselfshape, neworder)))"

definition change_shape :: "hierarchy \<Rightarrow> 'a hfarray \<Rightarrow> dim list \<Rightarrow> error + 'a hfarray" where
  "change_shape sub x newdims =
     and_then (view_hf x) (\<lambda>newself.
     and_then (shape_and_order sub x newdims) (\<lambda>(newselfshape, neworder).
     and_then (transpose_hf newself neworder) (\<lambda>newself.
     and_then (shape_setter newself newselfshape) (\<lambda>newself.
     dims_setter newself newdims))))"

text \<open>
  For the statements about \<^verbatim>\<open>change_shape\<close>: the axis that \<^verbatim>\<open>matching_index\<close> gives a target
  descriptor \<open>d\<close>, which is the position of the first descriptor of \<open>x\<close> that has the name
  of \<open>d\<close> and is an instance of the class of \<open>d\<close>.
\<close>

definition owner_axis :: "hierarchy \<Rightarrow> 'a hfarray \<Rightarrow> dim \<Rightarrow> nat" where
  "owner_axis sub x d = length (takeWhile (\<lambda>xd. \<not> same_dim sub xd d) (dims x))"

section \<open>Axis resolution\<close>

text \<open>
  What a caller may name an axis by: a position, a name, a dimension class or a descriptor;
  and the \<^verbatim>\<open>axis\<close> argument of the multi-axis operations: \<^verbatim>\<open>None\<close>, one specifier, or a
  tuple or list of them.
\<close>

datatype axis_spec = AxInt int | AxName string | AxClass dimclass | AxDim dim

datatype axis_arg = NoAxis | One axis_spec | Many "axis_spec list"

text \<open>
  \<^verbatim>\<open>axis_handler(a, axis)\<close>. A name is first replaced by the descriptor of that name; a
  descriptor is returned as it is when the collection contains it by identity. The loop
  over \<^verbatim>\<open>a.dims\<close> for a class collects the instances of the class.
\<close>

definition axis_handler_dim :: "hierarchy \<Rightarrow> 'a hfarray \<Rightarrow> dim \<Rightarrow> error + dim option" where
  "axis_handler_dim sub a axis =
     (if contains sub (dims a) axis then Inr (Some axis) else Inl IndexError)"

definition axis_handler :: "hierarchy \<Rightarrow> 'a hfarray \<Rightarrow> axis_spec option \<Rightarrow> error + dim option" where
  "axis_handler sub a axis =
     (case axis of
        None \<Rightarrow> Inr None
      | Some (AxInt i) \<Rightarrow> and_then (py_index (dims a) i) (\<lambda>d. Inr (Some d))
      | Some (AxName n) \<Rightarrow>
          and_then (dims_index (\<lambda>x y. x = y) sub a n None) (\<lambda>i.
          and_then (py_index (dims a) (int i)) (\<lambda>d. axis_handler_dim sub a d))
      | Some (AxClass c) \<Rightarrow>
          (case filter (\<lambda>d. isinstance sub d c) (dims a) of
             [] \<Rightarrow> Inl IndexError
           | [d] \<Rightarrow> Inr (Some d)
           | _ \<Rightarrow> Inl IndexError)
      | Some (AxDim d) \<Rightarrow> axis_handler_dim sub a d)"

text \<open>
  \<^verbatim>\<open>multiple_axis_handler(a, axis)\<close>. \<open>resolve_spec\<close> is the body of its loop for one element
  of the sequence: what it appends to \<^verbatim>\<open>outaxis\<close> and to \<^verbatim>\<open>outidx\<close>.
\<close>

definition resolve_dim ::
  "(dim \<Rightarrow> dim \<Rightarrow> bool) \<Rightarrow> hierarchy \<Rightarrow> 'a hfarray \<Rightarrow> dim \<Rightarrow> error + (dim list \<times> int list)" where
  "resolve_dim deq sub a ax =
     (if contains sub (dims a) ax
      then and_then (py_list_index deq (dims a) ax) (\<lambda>k. Inr ([ax], [int k]))
      else Inl IndexError)"

fun resolve_spec ::
  "(dim \<Rightarrow> dim \<Rightarrow> bool) \<Rightarrow> hierarchy \<Rightarrow> 'a hfarray \<Rightarrow> axis_spec \<Rightarrow> error + (dim list \<times> int list)" where
  "resolve_spec deq sub a (AxInt i) = and_then (py_index (dims a) i) (\<lambda>d. Inr ([d], [i]))"
| "resolve_spec deq sub a (AxName n) =
     and_then (dims_index (\<lambda>x y. x = y) sub a n None) (\<lambda>i.
     and_then (py_index (dims a) (int i)) (\<lambda>d. resolve_dim deq sub a d))"
| "resolve_spec deq sub a (AxClass c) =
     (let hits = filter (\<lambda>(dimidx, d). isinstance sub d c) (enumerate 0 (dims a))
      in Inr (map snd hits, map (\<lambda>(dimidx, d). int dimidx) hits))"
| "resolve_spec deq sub a (AxDim d) = resolve_dim deq sub a d"

fun resolve_all ::
  "(dim \<Rightarrow> dim \<Rightarrow> bool) \<Rightarrow> hierarchy \<Rightarrow> 'a hfarray \<Rightarrow> axis_spec list
     \<Rightarrow> error + (dim list \<times> int list)" where
  "resolve_all deq sub a [] = Inr ([], [])"
| "resolve_all deq sub a (ax # rest) =
     and_then (resolve_spec deq sub a ax) (\<lambda>(ds, idxs).
     and_then (resolve_all deq sub a rest) (\<lambda>(outaxis, outidx).
     Inr (ds @ outaxis, idxs @ outidx)))"

definition multiple_axis_handler ::
  "(dim \<Rightarrow> dim \<Rightarrow> bool) \<Rightarrow> hierarchy \<Rightarrow> 'a hfarray \<Rightarrow> axis_arg
     \<Rightarrow> error + (dim list \<times> int list) option" where
  "multiple_axis_handler deq sub a axis =
     (case axis of
        NoAxis \<Rightarrow> Inr None
      | One ax \<Rightarrow> and_then (resolve_all deq sub a [ax]) (\<lambda>r. Inr (Some r))
      | Many axs \<Rightarrow> and_then (resolve_all deq sub a axs) (\<lambda>r. Inr (Some r)))"

text \<open>
  The runtime's reductions with \<^verbatim>\<open>keepdims=True\<close> (\<^verbatim>\<open>sum\<close>, \<^verbatim>\<open>mean\<close>, \<^verbatim>\<open>min\<close>, and so on):
  the reduced axes get length 1, and each element of the result is \<open>f\<close> of the elements of the
  source that agree with its index on the axes kept, in row-major order. \<^verbatim>\<open>None\<close> reduces
  all axes.
\<close>

definition reduce_keepdims ::
  "('a list \<Rightarrow> 'a) \<Rightarrow> ('a, 'z) ndarray_scheme \<Rightarrow> int list option \<Rightarrow> error + 'a ndarray" where
  "reduce_keepdims f a axis =
     and_then (case axis of None \<Rightarrow> Inr [0..<ndim a] | Some axs \<Rightarrow> convert_axes (ndim a) [] axs)
       (\<lambda>red.
          let rshape = map (\<lambda>k. if k \<in> set red then 1 else shape a ! k) [0..<ndim a] in
          Inr \<lparr>shape = rshape,
               elems = map (\<lambda>j. f (map (item a)
                          (filter (\<lambda>i. list_all (\<lambda>k. k \<in> set red \<or> i ! k = j ! k) [0..<ndim a])
                             (indices (shape a)))))
                        (indices rshape)\<rparr>)"

text \<open>
  \<^verbatim>\<open>ndarray.squeeze(self, axis)\<close>: \<^verbatim>\<open>None\<close> removes every axis of length 1; a tuple removes
  the axes it names and raises \<^verbatim>\<open>ValueError\<close> when one of them has another length.
\<close>

definition ndarray_squeeze ::
  "('a, 'z) ndarray_scheme \<Rightarrow> int list option \<Rightarrow> error + ('a, 'z) ndarray_scheme" where
  "ndarray_squeeze a axis =
     (case axis of
        None \<Rightarrow> Inr (a\<lparr>shape := filter (\<lambda>n. n \<noteq> 1) (shape a)\<rparr>)
      | Some axs \<Rightarrow>
          and_then (convert_axes (ndim a) [] axs) (\<lambda>sq.
            if list_ex (\<lambda>k. shape a ! k \<noteq> 1) sq then Inl ValueError
            else Inr (a\<lparr>shape := map (\<lambda>k. shape a ! k) (filter (\<lambda>k. k \<notin> set sq) [0..<ndim a])\<rparr>)))"

text \<open>
  \<^verbatim>\<open>_hfarray.squeeze(self, axis=None)\<close>. \<open>unit_axes_dropped\<close> is its list of descriptors when
  no axis is given: those whose axis has a length other than 1.
\<close>

fun unit_axes_dropped :: "nat list \<Rightarrow> nat \<Rightarrow> dim list \<Rightarrow> error + dim list" where
  "unit_axes_dropped shp idx [] = Inr []"
| "unit_axes_dropped shp idx (ax # rest) =
     and_then (py_index shp (int idx)) (\<lambda>n.
     and_then (unit_axes_dropped shp (Suc idx) rest) (\<lambda>newinfo.
     Inr (if n \<noteq> 1 then ax # newinfo else newinfo)))"

definition squeeze_hf ::
  "(dim \<Rightarrow> dim \<Rightarrow> bool) \<Rightarrow> hierarchy \<Rightarrow> 'a hfarray \<Rightarrow> axis_arg \<Rightarrow> error + 'a hfarray" where
  "squeeze_hf deq sub self axis =
     and_then (multiple_axis_handler deq sub self axis) (\<lambda>r.
     and_then
       (case r of
          None \<Rightarrow> unit_axes_dropped (shape self) 0 (dims self)
        | Some (ds, dimidxs) \<Rightarrow>
            Inr (map snd (filter (\<lambda>(idx, ax). int idx \<notin> set dimidxs) (enumerate 0 (dims self)))))
       (\<lambda>newinfo.
     and_then (ndarray_squeeze self (map_option snd r)) (\<lambda>sq.
     hfarray_new (HfArray sq) (Some newinfo))))"

text \<open>
  The body shared by \<^verbatim>\<open>sum\<close>, \<^verbatim>\<open>mean\<close>, \<^verbatim>\<open>std\<close>, \<^verbatim>\<open>var\<close>, \<^verbatim>\<open>min\<close> and \<^verbatim>\<open>max\<close> of
  \<^verbatim>\<open>_hfarray\<close>, which differ in the reduction of the runtime they call; \<^verbatim>\<open>sum\<close> is the
  instance for addition. \<^verbatim>\<open>except IndexError\<close> guards the axis resolution only.
\<close>

definition reduction ::
  "('a list \<Rightarrow> 'a) \<Rightarrow> (dim \<Rightarrow> dim \<Rightarrow> bool) \<Rightarrow> hierarchy \<Rightarrow> 'a hfarray \<Rightarrow> axis_arg \<Rightarrow> bool \<Rightarrow> bool
     \<Rightarrow> error + 'a hfarray" where
  "reduction f deq sub self axis keepdims dimerror =
     (case multiple_axis_handler deq sub self axis of
        Inl e \<Rightarrow> if e = IndexError \<and> \<not> dimerror then Inr self else Inl e
      | Inr r \<Rightarrow>
          and_then (reduce_keepdims f (asarray self) (map_option snd r)) (\<lambda>rr.
          and_then (hfarray_new (NdArray rr) (Some (dims self))) (\<lambda>res.
          if \<not> keepdims
          then squeeze_hf deq sub res
                 (case r of None \<Rightarrow> NoAxis | Some (ds, dimidx) \<Rightarrow> Many (map AxInt dimidx))
          else Inr res)))"

definition sum_hf ::
  "(dim \<Rightarrow> dim \<Rightarrow> bool) \<Rightarrow> hierarchy \<Rightarrow> ('a :: monoid_add) hfarray \<Rightarrow> axis_arg \<Rightarrow> bool \<Rightarrow> bool
     \<Rightarrow> error + 'a hfarray" where
  "sum_hf = reduction sum_list"

section \<open>Arithmetic\<close>

text \<open>
  The runtime's elementwise binary operations. Shapes are aligned at their last axes, the
  shorter one padded with ones in front; two lengths fit when they are equal or one of them
  is 1, and \<^verbatim>\<open>ValueError\<close> is raised otherwise. An operand is read at index 0 along an
  axis on which it has length 1. The result is of the class of the first operand and takes
  its attributes, \<^verbatim>\<open>_dims\<close> among them, from it (\<^verbatim>\<open>__array_finalize__\<close>).
\<close>

definition pad_shape :: "nat \<Rightarrow> nat list \<Rightarrow> nat list" where
  "pad_shape n s = replicate (n - length s) 1 @ s"

definition broadcast_shapes :: "nat list \<Rightarrow> nat list \<Rightarrow> error + nat list" where
  "broadcast_shapes s t =
     (let n = max (length s) (length t); st = zip (pad_shape n s) (pad_shape n t) in
      if list_all (\<lambda>(m, k). m = k \<or> m = 1 \<or> k = 1) st
      then Inr (map (\<lambda>(m, k). if m = 1 then k else m) st)
      else Inl ValueError)"

definition broadcast_index :: "nat list \<Rightarrow> nat list \<Rightarrow> nat list" where
  "broadcast_index s j =
     map (\<lambda>(m, i). if m = 1 then 0 else i) (zip s (drop (length j - length s) j))"

definition ufunc ::
  "('a \<Rightarrow> 'a \<Rightarrow> 'a) \<Rightarrow> ('a, 'z) ndarray_scheme \<Rightarrow> ('a, 'y) ndarray_scheme
     \<Rightarrow> error + ('a, 'z) ndarray_scheme" where
  "ufunc f a b =
     and_then (broadcast_shapes (shape a) (shape b)) (\<lambda>rs.
       Inr (a\<lparr>shape := rs,
              elems := map (\<lambda>j. f (item a (broadcast_index (shape a) j))
                                   (item b (broadcast_index (shape b) j)))
                         (indices rs)\<rparr>))"

text \<open>
  \<^verbatim>\<open>ndarray.__add__(a, b)\<close> and its siblings, for the operation \<open>f\<close> on elements; \<open>b\<close> is a
  number or an array.
\<close>

definition ndarray_binop :: "('a \<Rightarrow> 'a \<Rightarrow> 'a) \<Rightarrow> 'a hfarray \<Rightarrow> 'a pyobj \<Rightarrow> error + 'a hfarray" where
  "ndarray_binop f a b =
     (case b of
        Number x \<Rightarrow> Inr (a\<lparr>elems := map (\<lambda>y. f y x) (elems a)\<rparr>)
      | NdArray b' \<Rightarrow> ufunc f a b'
      | HfArray b' \<Rightarrow> ufunc f a b')"

text \<open>
  \<^verbatim>\<open>make_same_dims_list(a)\<close> and \<^verbatim>\<open>make_same_dims(A, B)\<close>; an operand that is no labeled
  array is first wrapped with the dimensions of \<open>A\<close>.
\<close>

definition make_same_dims_list ::
  "hierarchy \<Rightarrow> (dimclass \<Rightarrow> int) \<Rightarrow> 'a hfarray list \<Rightarrow> error + 'a hfarray list" where
  "make_same_dims_list sub prio a =
     and_then (dims_union sub prio a) (\<lambda>newdims. map_err (\<lambda>x. change_shape sub x newdims) a)"

definition make_same_dims ::
  "hierarchy \<Rightarrow> (dimclass \<Rightarrow> int) \<Rightarrow> 'a hfarray \<Rightarrow> 'a pyobj \<Rightarrow> error + 'a hfarray list" where
  "make_same_dims sub prio A B =
     (case B of
        HfArray B' \<Rightarrow> make_same_dims_list sub prio [A, B']
      | _ \<Rightarrow> and_then (hfarray_new B (Some (dims A))) (\<lambda>B'. make_same_dims_list sub prio [A, B']))"

text \<open>
  The decorator \<^verbatim>\<open>check_instance(func)\<close> of the binary operators: a number bypasses the
  alignment; anything else is made a labeled array by the constructor and aligned with
  \<^verbatim>\<open>self\<close>. None of the operands modelled has a higher \<^verbatim>\<open>__array_priority__\<close> than
  \<^verbatim>\<open>self\<close>, so \<^verbatim>\<open>NotImplemented\<close> is never returned. \<^verbatim>\<open>__add__\<close> is the instance for
  addition.
\<close>

definition check_instance ::
  "('a hfarray \<Rightarrow> 'a pyobj \<Rightarrow> error + 'a hfarray) \<Rightarrow> hierarchy \<Rightarrow> (dimclass \<Rightarrow> int)
     \<Rightarrow> 'a hfarray \<Rightarrow> 'a pyobj \<Rightarrow> error + 'a hfarray" where
  "check_instance func sub prio self other =
     (case other of
        Number x \<Rightarrow> func self (Number x)
      | _ \<Rightarrow>
          and_then (hfarray_new other None) (\<lambda>oth.
          and_then (make_same_dims sub prio self (HfArray oth)) (\<lambda>ab.
            case ab of [a, b] \<Rightarrow> func a (HfArray b) | _ \<Rightarrow> Inl ValueError)))"

definition add_hf ::
  "hierarchy \<Rightarrow> (dimclass \<Rightarrow> int) \<Rightarrow> ('a :: plus) hfarray \<Rightarrow> 'a pyobj \<Rightarrow> error + 'a hfarray" where
  "add_hf = check_instance (ndarray_binop (+))"

text \<open>
  The comparison operators. \<^verbatim>\<open>_hfarray\<close> defines \<^verbatim>\<open>__eq__\<close>, under the decorator
  \<^verbatim>\<open>check_instance\<close>, and none of \<^verbatim>\<open>__ne__\<close>, \<^verbatim>\<open>__lt__\<close>, \<^verbatim>\<open>__le__\<close>, \<^verbatim>\<open>__gt__\<close> and
  \<^verbatim>\<open>__ge__\<close>: for these the methods of \<^verbatim>\<open>ndarray\<close> run, which broadcast the operands as
  they are and compare them elementwise. The result is a labeled array, since the first
  operand is one, and \<^verbatim>\<open>__array_finalize__\<close> gives it the \<^verbatim>\<open>_dims\<close> of that operand:
  \<^verbatim>\<open>self.__dict__["_dims"] = Dims(getattr(obj, "_dims", Dims()))\<close>, with no call of
  \<^verbatim>\<open>verify_dimension\<close>. \<open>gt_hf\<close> is \<^verbatim>\<open>A > other\<close>.
\<close>

definition compare_ufunc ::
  "('a \<Rightarrow> 'a \<Rightarrow> bool) \<Rightarrow> 'a hfarray \<Rightarrow> ('a, 'y) ndarray_scheme \<Rightarrow> error + bool hfarray" where
  "compare_ufunc r a b =
     and_then (broadcast_shapes (shape a) (shape b)) (\<lambda>rs.
       Inr \<lparr>shape = rs,
            elems = map (\<lambda>j. r (item a (broadcast_index (shape a) j))
                                (item b (broadcast_index (shape b) j)))
                      (indices rs),
            dims = dims a\<rparr>)"

definition ndarray_compare :: "('a \<Rightarrow> 'a \<Rightarrow> bool) \<Rightarrow> 'a hfarray \<Rightarrow> 'a pyobj \<Rightarrow> error + bool hfarray" where
  "ndarray_compare r a b =
     (case b of
        Number x \<Rightarrow> Inr \<lparr>shape = shape a, elems = map (\<lambda>y. r y x) (elems a), dims = dims a\<rparr>
      | NdArray b' \<Rightarrow> compare_ufunc r a b'
      | HfArray b' \<Rightarrow> compare_ufunc r a b')"

definition gt_hf :: "('a :: ord) hfarray \<Rightarrow> 'a pyobj \<Rightarrow> error + bool hfarray" where
  "gt_hf = ndarray_compare (\<lambda>x y. y < x)"

section \<open>Verification\<close>

subsection \<open>Index tuples and offsets\<close>

lemma position_less: "v \<in> set xs \<Longrightarrow> position xs v < length xs"
  by (induction xs) auto

lemma nth_position: "v \<in> set xs \<Longrightarrow> xs ! position xs v = v"
  by (induction xs) auto

lemma position_nth: "distinct xs \<Longrightarrow> k < length xs \<Longrightarrow> position xs (xs ! k) = k"
proof (induction xs arbitrary: k)
  case Nil
  then show ?case by simp
next
  case (Cons x xs)
  then show ?case by (cases k) auto
qed

lemma length_indices: "length (indices s) = prod_list s"
proof (induction s)
  case Nil
  show ?case by simp
next
  case (Cons n s)
  have "length (concat (map (\<lambda>i. map ((#) i) (indices s)) [0..<n])) = n * prod_list s"
    by (induction n) (simp_all add: Cons.IH)
  then show ?case by simp
qed

lemma ravel_Cons: "ravel (n # s) js = (case js of [] \<Rightarrow> 0 | i # r \<Rightarrow> i * prod_list s + ravel s r)"
  by (cases js) simp_all

lemma map_ravel_indices: "map (ravel s) (indices s) = [0..<prod_list s]"
proof (induction s)
  case Nil
  show ?case by simp
next
  case (Cons n s)
  have a: "map (ravel (m # s)) (map ((#) i) (indices s))
           = map (\<lambda>k. i * prod_list s + k) [0..<prod_list s]" for m i
  proof -
    have "map (ravel (m # s)) (map ((#) i) (indices s))
          = map (\<lambda>k. i * prod_list s + k) (map (ravel s) (indices s))"
      by (simp add: ravel_Cons)
    then show ?thesis by (simp only: Cons.IH)
  qed
  have b: "map (\<lambda>k. i * c + k) [0..<c] = [i * c..<Suc i * c]" for i c :: nat
    by (rule nth_equalityI) (simp_all add: algebra_simps)
  have "map (ravel (m # s)) (concat (map (\<lambda>i. map ((#) i) (indices s)) [0..<n]))
        = [0..<n * prod_list s]" for m
  proof (induction n)
    case 0
    show ?case by simp
  next
    case (Suc n)
    have "[0..<Suc n * prod_list s] = [0..<n * prod_list s] @ [n * prod_list s..<Suc n * prod_list s]"
      by (metis le_add2 mult_Suc upt_add_eq_append zero_le add.commute)
    moreover have "map (ravel (m # s) \<circ> (#) n) (indices s)
                   = [n * prod_list s..<Suc n * prod_list s]"
      using a [of m n] b [of n "prod_list s"] by (simp only: map_map)
    ultimately show ?case using Suc by simp
  qed
  then show ?case by simp
qed

lemma indices_nth_ravel:
  assumes "j \<in> set (indices s)"
  shows "indices s ! ravel s j = j" and "ravel s j < prod_list s"
proof -
  from assms obtain m where m: "m < length (indices s)" "indices s ! m = j"
    by (auto simp: in_set_conv_nth)
  have "map (ravel s) (indices s) ! m = [0..<prod_list s] ! m"
    by (simp only: map_ravel_indices)
  with m have r: "ravel s j = m" by (simp add: length_indices)
  with m show "indices s ! ravel s j = j" by simp
  from r m show "ravel s j < prod_list s" by (simp add: length_indices)
qed

lemma set_indices:
  "set (indices s) = {j. length j = length s \<and> (\<forall>k<length s. j ! k < s ! k)}"
proof (induction s)
  case Nil
  show ?case by auto
next
  case (Cons n s)
  show ?case
  proof (intro set_eqI iffI)
    fix j assume "j \<in> set (indices (n # s))"
    then obtain i r where "j = i # r" "i < n" "r \<in> set (indices s)" by auto
    with Cons show "j \<in> {j. length j = length (n # s) \<and> (\<forall>k<length (n # s). j ! k < (n # s) ! k)}"
      by (auto simp: nth_Cons split: nat.splits)
  next
    fix j assume a: "j \<in> {j. length j = length (n # s) \<and> (\<forall>k<length (n # s). j ! k < (n # s) ! k)}"
    then obtain i r where j: "j = i # r" by (cases j) auto
    from a j have "i < n" by auto
    moreover from a j have "r \<in> set (indices s)"
      unfolding Cons by auto
    ultimately show "j \<in> set (indices (n # s))" using j by auto
  qed
qed

lemma map_item_indices:
  assumes "buffer_ok a"
  shows "map (item a) (indices (shape a)) = elems a"
proof -
  have "map (item a) (indices (shape a)) = map ((!) (elems a)) (map (ravel (shape a)) (indices (shape a)))"
    by (simp add: item_def comp_def)
  also have "\<dots> = map ((!) (elems a)) [0..<length (elems a)]"
    using assms by (simp only: map_ravel_indices buffer_ok_def)
  finally show ?thesis by (simp add: map_nth)
qed


lemma perm_facts:
  assumes "mset p = mset [0..<n]"
  shows "distinct p" and "set p = {0..<n}" and "length p = n"
proof -
  show "distinct p" using mset_eq_imp_distinct_iff [OF assms] by simp
  show "set p = {0..<n}" using mset_eq_setD [OF assms] by simp
  show "length p = n" using mset_eq_length [OF assms] by simp
qed

lemma inverse_permutation_facts:
  assumes "mset p = mset [0..<n]"
  shows "mset (inverse_permutation p) = mset [0..<n]"
    and "\<And>k. k < n \<Longrightarrow> inverse_permutation p ! k = position p k"
    and "\<And>k. k < n \<Longrightarrow> position (inverse_permutation p) k = p ! k"
    and "\<And>k. k < n \<Longrightarrow> p ! (inverse_permutation p ! k) = k"
proof -
  note pf = perm_facts [OF assms]
  let ?q = "inverse_permutation p"
  have len: "length ?q = n" by (simp add: inverse_permutation_def pf(3))
  have mem: "k \<in> set p" if "k < n" for k using that by (simp add: pf(2))
  show nth: "?q ! k = position p k" if "k < n" for k
  proof -
    have "k < length [0..<length p]" using that by (simp add: pf(3))
    then have "map (position p) [0..<length p] ! k = position p ([0..<length p] ! k)"
      by (rule nth_map)
    also have "[0..<length p] ! k = k" using that by (simp add: pf(3))
    finally show ?thesis by (simp only: inverse_permutation_def)
  qed
  have inj: "inj_on (position p) {0..<n}"
  proof (rule inj_onI)
    fix x y assume x: "x \<in> {0..<n}" and y: "y \<in> {0..<n}" and e: "position p x = position p y"
    have "x = p ! position p x" using x by (simp add: nth_position mem)
    also have "\<dots> = p ! position p y" by (simp only: e)
    also have "\<dots> = y" using y by (simp add: nth_position mem)
    finally show "x = y" .
  qed
  have dq: "distinct ?q"
    unfolding inverse_permutation_def distinct_map using inj by (simp add: pf(3))
  have "set ?q \<subseteq> {0..<n}"
  proof
    fix x assume "x \<in> set ?q"
    then obtain k where "k < n" "x = position p k"
      by (auto simp: inverse_permutation_def pf(3))
    then show "x \<in> {0..<n}" using position_less [OF mem, of k] by (simp add: pf(3))
  qed
  moreover have "card (set ?q) = card {0..<n}"
    using distinct_card [OF dq] by (simp add: len)
  ultimately have sq: "set ?q = {0..<n}"
    using card_subset_eq [of "{0..<n}" "set ?q"] by simp
  have "set ?q = set [0..<n]" using sq by simp
  then show "mset ?q = mset [0..<n]"
    using set_eq_iff_mset_eq_distinct [OF dq distinct_upt, of 0 n] by simp
  show pq: "p ! (?q ! k) = k" if "k < n" for k
    using nth [OF that] nth_position [OF mem [OF that]] by simp
  show "position ?q k = p ! k" if "k < n" for k
  proof -
    have "p ! k \<in> set p" using that by (intro nth_mem) (simp add: pf(3))
    then have pk: "p ! k < n" by (simp add: pf(2))
    have "?q ! (p ! k) = position p (p ! k)" using pk by (rule nth)
    also have "\<dots> = k" using that position_nth [OF pf(1), of k] by (simp add: pf(3))
    finally have "position ?q (?q ! (p ! k)) = position ?q k" by simp
    moreover have "position ?q (?q ! (p ! k)) = p ! k"
      using position_nth [OF dq, of "p ! k"] pk by (simp add: len)
    ultimately show ?thesis by simp
  qed
qed

lemma source_index_in_indices:
  assumes p: "mset p = mset [0..<length s]" and j: "j \<in> set (indices (map (\<lambda>k. s ! k) p))"
  shows "source_index p j \<in> set (indices s)"
proof -
  note pf = perm_facts [OF p]
  from j have lj: "length j = length s" and bj: "\<And>k. k < length s \<Longrightarrow> j ! k < s ! (p ! k)"
    by (auto simp: set_indices pf(3))
  have "source_index p j ! m < s ! m" if "m < length s" for m
  proof -
    have mp: "m \<in> set p" using that by (simp add: pf(2))
    then have "position p m < length s" using position_less [of m p] by (simp add: pf(3))
    then have "j ! position p m < s ! (p ! position p m)" by (rule bj)
    then show ?thesis using that by (simp add: source_index_def pf(3) nth_position [OF mp])
  qed
  then show ?thesis by (simp add: set_indices source_index_def pf(3))
qed

lemma item_permute_axes:
  assumes j: "j \<in> set (indices (map (\<lambda>k. shape a ! k) p))"
  shows "item (permute_axes a p) j = item a (source_index p j)"
proof -
  let ?s = "map (\<lambda>k. shape a ! k) p"
  have "item (permute_axes a p) j = map (\<lambda>j. item a (source_index p j)) (indices ?s) ! ravel ?s j"
    by (simp add: item_def permute_axes_def)
  also have "\<dots> = item a (source_index p (indices ?s ! ravel ?s j))"
    using indices_nth_ravel(2) [OF j] by (simp add: length_indices)
  finally show ?thesis by (simp add: indices_nth_ravel(1) [OF j])
qed

lemma permute_axes_inverse:
  assumes p: "mset p = mset [0..<ndim a]" and ok: "buffer_ok a"
  shows "permute_axes (permute_axes a p) (inverse_permutation p) = a"
proof -
  let ?n = "ndim a"
  let ?q = "inverse_permutation p"
  let ?b = "permute_axes a p"
  note pf = perm_facts [OF p]
  note qf = inverse_permutation_facts [OF p]
  note qpf = perm_facts [OF qf(1)]
  have sb: "shape ?b = map (\<lambda>k. shape a ! k) p" by (simp add: permute_axes_def)
  have sc: "map (\<lambda>k. shape ?b ! k) ?q = shape a"
  proof (rule nth_equalityI)
    show "length (map (\<lambda>k. shape ?b ! k) ?q) = length (shape a)"
      by (simp add: qpf(3) ndim_def)
  next
    fix i assume "i < length (map (\<lambda>k. shape ?b ! k) ?q)"
    then have i: "i < ?n" by (simp add: qpf(3))
    then have "?q ! i \<in> set ?q" by (intro nth_mem) (simp add: qpf(3))
    then have "?q ! i < ?n" by (simp add: qpf(2))
    then show "map (\<lambda>k. shape ?b ! k) ?q ! i = shape a ! i"
      using i by (simp add: sb qpf(3) pf(3) qf(4))
  qed
  have el: "item ?b (source_index ?q j) = item a j" if j: "j \<in> set (indices (shape a))" for j
  proof -
    have q': "mset ?q = mset [0..<length (shape ?b)]" using qf(1) by (simp add: sb pf(3))
    have "j \<in> set (indices (map (\<lambda>k. shape ?b ! k) ?q))" using j by (simp only: sc)
    from source_index_in_indices [OF q' this]
    have m: "source_index ?q j \<in> set (indices (map (\<lambda>k. shape a ! k) p))" by (simp only: sb)
    have lj: "length j = ?n" using j by (simp add: set_indices ndim_def)
    have "source_index p (source_index ?q j) = j"
    proof (rule nth_equalityI)
      show "length (source_index p (source_index ?q j)) = length j"
        by (simp add: source_index_def pf(3) lj)
    next
      fix i assume "i < length (source_index p (source_index ?q j))"
      then have i: "i < ?n" by (simp add: source_index_def pf(3))
      then have ip: "i \<in> set p" by (simp add: pf(2))
      then have pp: "position p i < ?n" using position_less [of i p] by (simp add: pf(3))
      show "source_index p (source_index ?q j) ! i = j ! i"
        using i pp by (simp add: source_index_def pf(3) qpf(3) qf(3) nth_position [OF ip])
    qed
    then show ?thesis using item_permute_axes [OF m] by simp
  qed
  have "elems (permute_axes ?b ?q) = map (\<lambda>j. item ?b (source_index ?q j)) (indices (shape a))"
    by (simp add: permute_axes_def [of ?b] sc)
  also have "\<dots> = map (item a) (indices (shape a))"
    by (rule map_cong) (simp_all add: el)
  also have "\<dots> = elems a" by (rule map_item_indices [OF ok])
  finally have e: "elems (permute_axes ?b ?q) = elems a" .
  have s: "shape (permute_axes ?b ?q) = shape a"
    by (simp add: permute_axes_def [of ?b] sc)
  have m: "ndarray.more (permute_axes ?b ?q) = ndarray.more a"
    by (simp add: permute_axes_def)
  show ?thesis by (rule ndarray.equality) (simp_all add: e s m)
qed


lemma map_err_Inr:
  assumes "\<And>x. x \<in> set xs \<Longrightarrow> f x = Inr (g x)"
  shows "map_err f xs = Inr (map g xs)"
  using assms by (induction xs) simp_all

lemma normalize_axis_nat: "k < n \<Longrightarrow> normalize_axis n (int k) = Inr k"
  by (simp add: normalize_axis_def)

lemma py_index_nat: "k < length xs \<Longrightarrow> py_index xs (int k) = Inr (xs ! k)"
  by (simp add: py_index_def)

subsection \<open>Transposition\<close>

lemma convert_axes_nat:
  assumes "distinct p" and "set p \<subseteq> {0..<n}" and "set p \<inter> set seen = {}"
  shows "convert_axes n seen (map int p) = Inr p"
  using assms
proof (induction p arbitrary: seen)
  case Nil
  show ?case by simp
next
  case (Cons k p)
  from Cons.prems have "convert_axes n (k # seen) (map int p) = Inr p"
    by (intro Cons.IH) auto
  with Cons.prems show ?case by (simp add: normalize_axis_nat and_then_def)
qed

lemma convert_axes_in_range:
  assumes "\<forall>i \<in> set idxs. - int n \<le> i \<and> i < int n"
  shows "convert_axes n seen idxs
         = (if distinct (map (\<lambda>i. nat (if i < 0 then i + int n else i)) idxs)
               \<and> set (map (\<lambda>i. nat (if i < 0 then i + int n else i)) idxs) \<inter> set seen = {}
            then Inr (map (\<lambda>i. nat (if i < 0 then i + int n else i)) idxs)
            else Inl ValueError)"
  using assms
proof (induction idxs arbitrary: seen)
  case Nil
  show ?case by simp
next
  case (Cons i idxs)
  let ?k = "nat (if i < 0 then i + int n else i)"
  from Cons.prems have i: "- int n \<le> i" "i < int n" by simp_all
  have na: "normalize_axis n i = Inr ?k"
    using i by (auto simp: normalize_axis_def)
  from Cons.prems have "\<forall>i \<in> set idxs. - int n \<le> i \<and> i < int n" by simp
  note ih = Cons.IH [OF this, of "?k # seen"]
  show ?case
  proof (cases "?k \<in> set seen")
    case True
    then show ?thesis by (simp add: na and_then_def)
  next
    case False
    then show ?thesis
      unfolding convert_axes.simps na and_then_def sum.case ih
      by (auto simp: Let_def)
  qed
qed

lemma ndarray_transpose_perm:
  assumes p: "mset p = mset [0..<ndim a]"
  shows "ndarray_transpose a (map int p) = Inr (permute_axes a p)"
proof (cases "p = []")
  case True
  then have "ndim a = 0" using perm_facts(3) [OF p] by simp
  then show ?thesis using True by (simp add: ndarray_transpose_def)
next
  case False
  note pf = perm_facts [OF p]
  have "convert_axes (ndim a) [] (map int p) = Inr p"
    by (rule convert_axes_nat) (simp_all add: pf(1) pf(2))
  then show ?thesis using False pf(3) by (simp add: ndarray_transpose_def and_then_def)
qed

lemma permute_axes_dims_update:
  "shape (permute_axes (a\<lparr>dims := d\<rparr>) p) = shape (permute_axes a p)"
  "elems (permute_axes (a\<lparr>dims := d\<rparr>) p) = elems (permute_axes a p)"
  by (simp_all add: permute_axes_def item_def)

lemma transpose_hf_perm:
  assumes p: "mset p = mset [0..<ndim self]" and v: "length (dims self) = ndim self"
  shows "transpose_hf self (map int p)
         = Inr ((permute_axes self p)\<lparr>dims := map (\<lambda>k. dims self ! k) p\<rparr>)"
proof -
  note pf = perm_facts [OF p]
  have o: "(if map int p = [] then rev (map int [0..<ndim self]) else map int p) = map int p"
    using pf(3) by auto
  have d: "map_err (py_index (dims self)) (map int p) = Inr (map (\<lambda>x. dims self ! nat x) (map int p))"
  proof (rule map_err_Inr)
    fix x assume "x \<in> set (map int p)"
    then obtain k where k: "k \<in> set p" "x = int k" by auto
    then have "k < length (dims self)" by (simp add: pf(2) v)
    then show "py_index (dims self) x = Inr (dims self ! nat x)" using k by (simp add: py_index_nat)
  qed
  have l: "length p = length (shape (permute_axes self p))" by (simp add: permute_axes_def)
  show ?thesis
    unfolding transpose_hf_def Let_def o
    by (simp add: ndarray_transpose_perm [OF p] d and_then_def hfarray_new_def
        verify_dimension_def asarray_def ndim_def comp_def l [symmetric])
qed

text \<open>
  C9: for a labeled array (a buffer with as many elements as its shape says, and as many
  descriptors as axes) and a permutation \<open>p\<close> of its axes, transposing by \<open>p\<close> and then by
  the inverse of \<open>p\<close> raises nothing and gives back the array: the same shape, the same
  elements and the same descriptors in the same order.
\<close>

theorem transpose_round_trip:
  assumes "buffer_ok A" and "length (dims A) = ndim A" and "mset p = mset [0..<ndim A]"
  shows "and_then (transpose_hf A (map int p))
           (\<lambda>B. transpose_hf B (map int (inverse_permutation p))) = Inr A"
proof -
  let ?q = "inverse_permutation p"
  let ?B = "(permute_axes A p)\<lparr>dims := map (\<lambda>k. dims A ! k) p\<rparr>"
  note pf = perm_facts [OF assms(3)]
  note qf = inverse_permutation_facts [OF assms(3)]
  note qpf = perm_facts [OF qf(1)]
  have nB: "ndim ?B = ndim A" by (simp add: ndim_def permute_axes_def pf(3))
  have q: "mset ?q = mset [0..<ndim ?B]" using qf(1) by (simp only: nB)
  have vB: "length (dims ?B) = ndim ?B" by (simp add: nB pf(3))
  have inv: "permute_axes (permute_axes A p) ?q = A"
    by (rule permute_axes_inverse [OF assms(3) assms(1)])
  have dd: "map (\<lambda>k. dims ?B ! k) ?q = dims A"
  proof (rule nth_equalityI)
    show "length (map (\<lambda>k. dims ?B ! k) ?q) = length (dims A)"
      by (simp add: qpf(3) assms(2))
  next
    fix i assume "i < length (map (\<lambda>k. dims ?B ! k) ?q)"
    then have i: "i < ndim A" by (simp add: qpf(3))
    then have "?q ! i \<in> set ?q" by (intro nth_mem) (simp add: qpf(3))
    then have "?q ! i < ndim A" by (simp add: qpf(2))
    then show "map (\<lambda>k. dims ?B ! k) ?q ! i = dims A ! i"
      using i by (simp add: qpf(3) pf(3) qf(4))
  qed
  have "transpose_hf ?B (map int ?q) = Inr ((permute_axes ?B ?q)\<lparr>dims := dims A\<rparr>)"
    using transpose_hf_perm [OF q vB] by (simp only: dd)
  also have "(permute_axes ?B ?q)\<lparr>dims := dims A\<rparr> = A"
    using inv permute_axes_dims_update [where a = "permute_axes A p"
        and d = "map (\<lambda>k. dims A ! k) p" and p = ?q]
    by (intro hfarray.equality) simp_all
  finally show ?thesis
    by (simp add: transpose_hf_perm [OF assms(3) assms(2)] and_then_def)
qed

theorem transpose_round_trip_witness:
  "and_then
     (transpose_hf
        \<lparr>shape = [2, 3], elems = [1, 2, 3, 4, 5, 6 :: int],
         dims = [\<lparr>name = ''freq'', cls = DimSweep, data = [1, 2], unit = None\<rparr>,
                 \<lparr>name = ''rep'', cls = DimRep, data = [0, 1, 2], unit = None\<rparr>]\<rparr>
        (map int [1, 0]))
     (\<lambda>B. transpose_hf B (map int (inverse_permutation [1, 0])))
   = Inr \<lparr>shape = [2, 3], elems = [1, 2, 3, 4, 5, 6 :: int],
          dims = [\<lparr>name = ''freq'', cls = DimSweep, data = [1, 2], unit = None\<rparr>,
                  \<lparr>name = ''rep'', cls = DimRep, data = [0, 1, 2], unit = None\<rparr>]\<rparr>"
  by (rule transpose_round_trip) (simp_all add: buffer_ok_def ndim_def upt_rec)

subsection \<open>Assignment to the dimension collection\<close>

text \<open>
  C8, as the claim states it, fails: assigning an empty collection to the \<^verbatim>\<open>dims\<close> of an
  array of rank 1 raises nothing and leaves the array with no descriptor.
\<close>

theorem dims_setter_counterexample:
  "length ([] :: dim list)
     \<noteq> ndim \<lparr>shape = [2], elems = [1, 2 :: int],
              dims = [\<lparr>name = ''freq'', cls = DimSweep, data = [1, 2], unit = None\<rparr>]\<rparr> \<and>
   dims_setter \<lparr>shape = [2], elems = [1, 2 :: int],
                dims = [\<lparr>name = ''freq'', cls = DimSweep, data = [1, 2], unit = None\<rparr>]\<rparr> []
     = Inr \<lparr>shape = [2], elems = [1, 2], dims = []\<rparr>"
  by (simp add: dims_setter_def ndim_def)

text \<open>
  C8 as amended: assignment to \<^verbatim>\<open>dims\<close> always succeeds and installs the collection it is
  given, whatever its length; the rank check is the constructor's, which raises
  \<^verbatim>\<open>HFArrayShapeDimsMismatchError\<close> exactly when the collection it is given has a length
  other than the rank of the buffer.
\<close>

theorem dims_setter_unchecked:
  "dims_setter self v = Inr (self\<lparr>dims := v\<rparr>) \<and>
   (hfarray_new (NdArray b) (Some v) = Inl HFArrayShapeDimsMismatchError) = (length v \<noteq> ndim b) \<and>
   (hfarray_new (NdArray b) (Some v) = Inr \<lparr>shape = shape b, elems = elems b, dims = v\<rparr>)
     = (length v = ndim b)"
  by (simp add: dims_setter_def hfarray_new_def and_then_def verify_dimension_def ndim_def)

theorem dims_setter_unchecked_witness:
  "dims_setter \<lparr>shape = [2], elems = [1, 2 :: int], dims = []\<rparr>
     [\<lparr>name = ''a'', cls = DimSweep, data = [], unit = None\<rparr>,
      \<lparr>name = ''b'', cls = DimRep, data = [], unit = None\<rparr>]
   = Inr \<lparr>shape = [2], elems = [1, 2 :: int],
          dims = [\<lparr>name = ''a'', cls = DimSweep, data = [], unit = None\<rparr>,
                  \<lparr>name = ''b'', cls = DimRep, data = [], unit = None\<rparr>]\<rparr>"
  using dims_setter_unchecked [of "\<lparr>shape = [2], elems = [1, 2 :: int], dims = []\<rparr>"
      "[\<lparr>name = ''a'', cls = DimSweep, data = [], unit = None\<rparr>,
        \<lparr>name = ''b'', cls = DimRep, data = [], unit = None\<rparr>]" "\<lparr>shape = [], elems = [0 :: int]\<rparr>"]
  by simp

subsection \<open>The matrix transpose without a matrix pair\<close>

lemma matrix_dims_no_i:
  "\<forall>d \<in> set ds. \<not> isinstance sub d DimMatrix_i \<Longrightarrow> fst (matrix_dims sub (di, dj) ds) = di"
  by (induction ds arbitrary: dj) auto

lemma matrix_dims_no_j:
  "\<forall>d \<in> set ds. \<not> isinstance sub d DimMatrix_j \<Longrightarrow> snd (matrix_dims sub (di, dj) ds) = dj"
  by (induction ds arbitrary: di) auto

text \<open>
  C10: when no descriptor of the array is a \<^verbatim>\<open>DimMatrix_i\<close>, or none is a \<^verbatim>\<open>DimMatrix_j\<close>,
  the property \<^verbatim>\<open>t\<close> returns the array itself and raises nothing.
\<close>

theorem t_without_matrix_pair:
  assumes "(\<forall>d \<in> set (dims self). \<not> isinstance sub d DimMatrix_i)
           \<or> (\<forall>d \<in> set (dims self). \<not> isinstance sub d DimMatrix_j)"
  shows "t_hf eqd sub self = Inr self"
proof -
  obtain di dj where m: "matrix_dims sub (None, None) (dims self) = (di, dj)"
    by (cases "matrix_dims sub (None, None) (dims self)") auto
  from assms have "di = None \<or> dj = None"
  proof
    assume "\<forall>d \<in> set (dims self). \<not> isinstance sub d DimMatrix_i"
    from matrix_dims_no_i [OF this, of None None] m show ?thesis by simp
  next
    assume "\<forall>d \<in> set (dims self). \<not> isinstance sub d DimMatrix_j"
    from matrix_dims_no_j [OF this, of None None] m show ?thesis by simp
  qed
  then show ?thesis
    by (auto simp: t_hf_def m split: option.splits)
qed

theorem t_without_matrix_pair_witness:
  "t_hf (\<lambda>n d. n = name d) (\<lambda>c d. d = DimBase \<and> c \<noteq> DimBase)
     \<lparr>shape = [2, 1], elems = [1, 2 :: int],
      dims = [\<lparr>name = ''freq'', cls = DimSweep, data = [1, 2], unit = None\<rparr>,
              \<lparr>name = ''i'', cls = DimMatrix_i, data = [0], unit = None\<rparr>]\<rparr>
   = Inr \<lparr>shape = [2, 1], elems = [1, 2 :: int],
      dims = [\<lparr>name = ''freq'', cls = DimSweep, data = [1, 2], unit = None\<rparr>,
              \<lparr>name = ''i'', cls = DimMatrix_i, data = [0], unit = None\<rparr>]\<rparr>"
  by (rule t_without_matrix_pair) (simp add: isinstance_def)

subsection \<open>The union of dimension collections\<close>

lemma contains_iff: "contains sub xs v = (\<exists>x \<in> set xs. same_dim sub x v)"
  by (induction xs) auto

lemma same_dim_refl: "same_dim sub d d"
  by (simp add: same_dim_def isinstance_def)

lemma append_missing_append:
  "append_missing sub acc (xs @ ys) = append_missing sub (append_missing sub acc xs) ys"
  by (induction xs arbitrary: acc) simp_all

lemma union_loop_concat:
  "union_loop sub acc Bs = append_missing sub acc (concat (map dims Bs))"
  by (induction Bs arbitrary: acc) (simp_all add: append_missing_append)

lemma filter_less_Suc_map: "filter (\<lambda>k. k < Suc i) (map Suc js) = map Suc (filter (\<lambda>k. k < i) js)"
  by (induction js) simp_all

lemma append_missing_greedy:
  "\<exists>js. sorted_wrt (<) js \<and> set js \<subseteq> {0..<length ds}
     \<and> (\<forall>j<length ds. (j \<in> set js)
            = (\<not> contains sub (acc @ map ((!) ds) (filter (\<lambda>k. k < j) js)) (ds ! j)))
     \<and> append_missing sub acc ds = acc @ map ((!) ds) js"
proof (induction ds arbitrary: acc)
  case Nil
  show ?case by simp
next
  case (Cons d ds)
  show ?case
  proof (cases "contains sub acc d")
    case True
    from Cons [of acc] obtain js where js: "sorted_wrt (<) js" "set js \<subseteq> {0..<length ds}"
      "\<forall>j<length ds. (j \<in> set js)
            = (\<not> contains sub (acc @ map ((!) ds) (filter (\<lambda>k. k < j) js)) (ds ! j))"
      "append_missing sub acc ds = acc @ map ((!) ds) js" by blast
    let ?js = "map Suc js"
    have g: "(j \<in> set ?js)
             = (\<not> contains sub (acc @ map ((!) (d # ds)) (filter (\<lambda>k. k < j) ?js)) ((d # ds) ! j))"
      if "j < length (d # ds)" for j
    proof (cases j)
      case 0
      then show ?thesis using True by auto
    next
      case (Suc i)
      with that have "i < length ds" by simp
      with js(3) have "(i \<in> set js)
            = (\<not> contains sub (acc @ map ((!) ds) (filter (\<lambda>k. k < i) js)) (ds ! i))" by simp
      then show ?thesis unfolding Suc by (simp add: filter_less_Suc_map comp_def) auto
    qed
    show ?thesis
    proof (intro exI [of _ ?js] conjI allI impI)
      show "sorted_wrt (<) ?js" using js(1) by (simp add: sorted_wrt_map)
      show "set ?js \<subseteq> {0..<length (d # ds)}" using js(2) by auto
      show "append_missing sub acc (d # ds) = acc @ map ((!) (d # ds)) ?js"
        using True js(4) by (simp add: comp_def)
    qed (rule g)
  next
    case False
    from Cons [of "acc @ [d]"] obtain js where js: "sorted_wrt (<) js" "set js \<subseteq> {0..<length ds}"
      "\<forall>j<length ds. (j \<in> set js)
            = (\<not> contains sub ((acc @ [d]) @ map ((!) ds) (filter (\<lambda>k. k < j) js)) (ds ! j))"
      "append_missing sub (acc @ [d]) ds = (acc @ [d]) @ map ((!) ds) js" by blast
    let ?js = "0 # map Suc js"
    have g: "(j \<in> set ?js)
             = (\<not> contains sub (acc @ map ((!) (d # ds)) (filter (\<lambda>k. k < j) ?js)) ((d # ds) ! j))"
      if "j < length (d # ds)" for j
    proof (cases j)
      case 0
      then show ?thesis using False by simp
    next
      case (Suc i)
      with that have "i < length ds" by simp
      with js(3) have "(i \<in> set js)
            = (\<not> contains sub ((acc @ [d]) @ map ((!) ds) (filter (\<lambda>k. k < i) js)) (ds ! i))" by simp
      then show ?thesis unfolding Suc by (simp add: filter_less_Suc_map comp_def) auto
    qed
    show ?thesis
    proof (intro exI [of _ ?js] conjI allI impI)
      show "sorted_wrt (<) ?js" using js(1) by (simp add: sorted_wrt_map)
      show "set ?js \<subseteq> {0..<length (d # ds)}" using js(2) by auto
      show "append_missing sub acc (d # ds) = acc @ map ((!) (d # ds)) ?js"
        using False js(4) by (simp add: comp_def)
    qed (rule g)
  qed
qed

lemma filter_less_Suc_sorted:
  "sorted_wrt (<) (js :: nat list) \<Longrightarrow>
   filter (\<lambda>k. k < Suc j) js = filter (\<lambda>k. k < j) js @ (if j \<in> set js then [j] else [])"
proof (induction js)
  case Nil
  show ?case by simp
next
  case (Cons x xs)
  then have gt: "\<forall>y \<in> set xs. x < y" and s: "sorted_wrt (<) xs" by simp_all
  consider "x < j" | "x = j" | "j < x" by linarith
  then show ?case
  proof cases
    case 1
    then show ?thesis using Cons.IH [OF s] by auto
  next
    case 2
    have "filter (\<lambda>k. k < Suc j) xs = []" "filter (\<lambda>k. k < j) xs = []"
      using gt 2 by (auto simp: filter_empty_conv)
    then show ?thesis using 2 by simp
  next
    case 3
    have "filter (\<lambda>k. k < Suc j) xs = []" "filter (\<lambda>k. k < j) xs = []" "j \<notin> set xs"
      using gt 3 by (auto simp: filter_empty_conv)
    then show ?thesis using 3 by simp
  qed
qed

lemma greedy_unique:
  assumes a: "sorted_wrt (<) (js :: nat list)" "set js \<subseteq> {0..<n}" "\<forall>j<n. (j \<in> set js) = Q (filter (\<lambda>k. k < j) js) j"
    and b: "sorted_wrt (<) js'" "set js' \<subseteq> {0..<n}"
      "\<forall>j<n. (j \<in> set js') = Q (filter (\<lambda>k. k < j) js') j"
  shows "js' = js"
proof -
  have "filter (\<lambda>k. k < j) js' = filter (\<lambda>k. k < j) js" if "j \<le> n" for j
    using that
  proof (induction j)
    case 0
    show ?case by simp
  next
    case (Suc j)
    then have e: "filter (\<lambda>k. k < j) js' = filter (\<lambda>k. k < j) js" and j: "j < n" by simp_all
    from a(3) b(3) j e have "(j \<in> set js') = (j \<in> set js)" by simp
    then show ?case
      by (simp add: filter_less_Suc_sorted [OF a(1)] filter_less_Suc_sorted [OF b(1)] e)
  qed
  then have "filter (\<lambda>k. k < n) js' = filter (\<lambda>k. k < n) js" by simp
  moreover have "filter (\<lambda>k. k < n) js = js" using a(2) by (auto simp: filter_id_conv)
  moreover have "filter (\<lambda>k. k < n) js' = js'" using b(2) by (auto simp: filter_id_conv)
  ultimately show ?thesis by simp
qed

text \<open>
  C3, as the claim states it, fails: presence is not decided by name and variant. With
  every dimension class a subclass of \<^verbatim>\<open>DimBase\<close> (which \<^verbatim>\<open>Dims.__contains__\<close> relies on for
  its dummy descriptor), a \<^verbatim>\<open>DimBase\<close> descriptor named \<open>x\<close> is not appended to a collection
  that holds a sweep descriptor named \<open>x\<close>, although the two differ in variant; in the
  other order the sweep descriptor is appended.
\<close>

theorem dims_union_identity_counterexample:
  "dims_union (\<lambda>c d. d = DimBase \<and> c \<noteq> DimBase) (\<lambda>c. 0)
     [\<lparr>shape = [2], elems = [1, 2 :: int], dims = [\<lparr>name = ''x'', cls = DimSweep, data = [1, 2], unit = None\<rparr>]\<rparr>,
      \<lparr>shape = [2], elems = [3, 4 :: int], dims = [\<lparr>name = ''x'', cls = DimBase, data = [1, 2], unit = None\<rparr>]\<rparr>]
   = Inr [\<lparr>name = ''x'', cls = DimSweep, data = [1, 2], unit = None\<rparr>]
   \<and> (name \<lparr>name = ''x'', cls = DimSweep, data = [1, 2], unit = None\<rparr>, cls \<lparr>name = ''x'', cls = DimSweep, data = [1, 2], unit = None\<rparr>) \<noteq> (name \<lparr>name = ''x'', cls = DimBase, data = [1, 2], unit = None\<rparr>, cls \<lparr>name = ''x'', cls = DimBase, data = [1, 2], unit = None\<rparr>)
   \<and> dims_union (\<lambda>c d. d = DimBase \<and> c \<noteq> DimBase) (\<lambda>c. 0)
     [\<lparr>shape = [2], elems = [3, 4 :: int], dims = [\<lparr>name = ''x'', cls = DimBase, data = [1, 2], unit = None\<rparr>]\<rparr>,
      \<lparr>shape = [2], elems = [1, 2 :: int], dims = [\<lparr>name = ''x'', cls = DimSweep, data = [1, 2], unit = None\<rparr>]\<rparr>]
   = Inr [\<lparr>name = ''x'', cls = DimBase, data = [1, 2], unit = None\<rparr>, \<lparr>name = ''x'', cls = DimSweep, data = [1, 2], unit = None\<rparr>]"
  by (simp add: dims_union_def sortprio_def same_dim_def isinstance_def)

text \<open>
  C3 as amended. Let \<open>later\<close> be the descriptors of the operands after the first, in the
  order the operands give them. \<^verbatim>\<open>dims_union\<close> returns the stable sort by \<^verbatim>\<open>sortprio\<close> of
  the first operand's descriptors followed by the descriptors of \<open>later\<close> at the positions
  \<open>js\<close>, where \<open>js\<close> is increasing and a position belongs to \<open>js\<close> exactly when the first
  operand's descriptors together with the descriptors already taken from the positions
  before it do not contain the descriptor at that position. These conditions fix \<open>js\<close>.
  Containment is the test of \<^verbatim>\<open>DimsList.__contains__\<close>: some member has the name of the
  descriptor and is an instance of its class. The result is sorted by priority, and
  descriptors of equal priority keep the order of the accumulation.
\<close>

theorem dims_union_first_seen:
  "\<exists>js. sorted_wrt (<) js \<and> set js \<subseteq> {0..<length (concat (map dims Bs))}
     \<and> (\<forall>j<length (concat (map dims Bs)). (j \<in> set js)
            = (\<not> contains sub
                   (dims A @ map ((!) (concat (map dims Bs))) (filter (\<lambda>k. k < j) js))
                   (concat (map dims Bs) ! j)))
     \<and> (\<forall>js'. sorted_wrt (<) js' \<and> set js' \<subseteq> {0..<length (concat (map dims Bs))}
            \<and> (\<forall>j<length (concat (map dims Bs)). (j \<in> set js')
                  = (\<not> contains sub
                         (dims A @ map ((!) (concat (map dims Bs))) (filter (\<lambda>k. k < j) js'))
                         (concat (map dims Bs) ! j)))
            \<longrightarrow> js' = js)
     \<and> dims_union sub prio (A # Bs)
         = Inr (sort_key (sortprio prio) (dims A @ map ((!) (concat (map dims Bs))) js))
     \<and> sorted (map (sortprio prio)
           (sort_key (sortprio prio) (dims A @ map ((!) (concat (map dims Bs))) js)))
     \<and> (\<forall>v. filter (\<lambda>x. sortprio prio x = v)
                (sort_key (sortprio prio) (dims A @ map ((!) (concat (map dims Bs))) js))
            = filter (\<lambda>x. sortprio prio x = v) (dims A @ map ((!) (concat (map dims Bs))) js))"
proof -
  let ?later = "concat (map dims Bs)"
  from append_missing_greedy [of ?later sub "dims A"]
  obtain js where js: "sorted_wrt (<) js" "set js \<subseteq> {0..<length ?later}"
    "\<forall>j<length ?later. (j \<in> set js)
       = (\<not> contains sub (dims A @ map ((!) ?later) (filter (\<lambda>k. k < j) js)) (?later ! j))"
    "append_missing sub (dims A) ?later = dims A @ map ((!) ?later) js" by blast
  have u: "js' = js"
    if "sorted_wrt (<) js' \<and> set js' \<subseteq> {0..<length ?later}
        \<and> (\<forall>j<length ?later. (j \<in> set js')
              = (\<not> contains sub (dims A @ map ((!) ?later) (filter (\<lambda>k. k < j) js')) (?later ! j)))"
    for js'
    using that js(1,2,3)
    by (intro greedy_unique [where Q = "\<lambda>pre j. \<not> contains sub (dims A @ map ((!) ?later) pre) (?later ! j)"
          and n = "length ?later"]) simp_all
  have r: "dims_union sub prio (A # Bs) = Inr (sort_key (sortprio prio) (dims A @ map ((!) ?later) js))"
    by (simp add: dims_union_def union_loop_concat js(4))
  show ?thesis
  proof (intro exI [of _ js] conjI allI impI)
    show "sorted_wrt (<) js" by (rule js(1))
    show "set js \<subseteq> {0..<length ?later}" by (rule js(2))
    show "dims_union sub prio (A # Bs) = Inr (sort_key (sortprio prio) (dims A @ map ((!) ?later) js))"
      by (rule r)
    show "sorted (map (sortprio prio) (sort_key (sortprio prio) (dims A @ map ((!) ?later) js)))"
      by simp
  next
    fix j assume "j < length ?later"
    then show "(j \<in> set js)
       = (\<not> contains sub (dims A @ map ((!) ?later) (filter (\<lambda>k. k < j) js)) (?later ! j))"
      using js(3) by simp
  next
    fix js' assume "sorted_wrt (<) js' \<and> set js' \<subseteq> {0..<length ?later}
        \<and> (\<forall>j<length ?later. (j \<in> set js')
              = (\<not> contains sub (dims A @ map ((!) ?later) (filter (\<lambda>k. k < j) js')) (?later ! j)))"
    then show "js' = js" by (rule u)
  next
    fix v show "filter (\<lambda>x. sortprio prio x = v) (sort_key (sortprio prio) (dims A @ map ((!) ?later) js))
            = filter (\<lambda>x. sortprio prio x = v) (dims A @ map ((!) ?later) js)"
      by (rule sort_key_stable)
  qed
qed

theorem dims_union_first_seen_witness:
  "dims_union (\<lambda>c d. d = DimBase \<and> c \<noteq> DimBase)
     (\<lambda>c. if c = DimSweep then 0 else if c = DimRep then 1 else 1000)
     [\<lparr>shape = [2, 2], elems = [1, 2, 3, 4 :: int], dims = [\<lparr>name = ''i'', cls = DimMatrix_i, data = [0, 1], unit = None\<rparr>, \<lparr>name = ''freq'', cls = DimSweep, data = [1, 2], unit = None\<rparr>]\<rparr>,
      \<lparr>shape = [2], elems = [1, 2 :: int], dims = [\<lparr>name = ''rep'', cls = DimRep, data = [0, 1], unit = None\<rparr>]\<rparr>,
      \<lparr>shape = [2, 2], elems = [1, 2, 3, 4 :: int], dims = [\<lparr>name = ''rep'', cls = DimRep, data = [5, 6], unit = None\<rparr>, \<lparr>name = ''freq'', cls = DimSweep, data = [1, 2], unit = None\<rparr>]\<rparr>]
   = Inr [\<lparr>name = ''freq'', cls = DimSweep, data = [1, 2], unit = None\<rparr>, \<lparr>name = ''rep'', cls = DimRep, data = [0, 1], unit = None\<rparr>, \<lparr>name = ''i'', cls = DimMatrix_i, data = [0, 1], unit = None\<rparr>]"
  using dims_union_first_seen [of
      "[\<lparr>shape = [2], elems = [1, 2 :: int], dims = [\<lparr>name = ''rep'', cls = DimRep, data = [0, 1], unit = None\<rparr>]\<rparr>,
        \<lparr>shape = [2, 2], elems = [1, 2, 3, 4 :: int], dims = [\<lparr>name = ''rep'', cls = DimRep, data = [5, 6], unit = None\<rparr>, \<lparr>name = ''freq'', cls = DimSweep, data = [1, 2], unit = None\<rparr>]\<rparr>]"
      "\<lambda>c d. d = DimBase \<and> c \<noteq> DimBase"
      "\<lparr>shape = [2, 2], elems = [1, 2, 3, 4 :: int], dims = [\<lparr>name = ''i'', cls = DimMatrix_i, data = [0, 1], unit = None\<rparr>, \<lparr>name = ''freq'', cls = DimSweep, data = [1, 2], unit = None\<rparr>]\<rparr>"
      "\<lambda>c. if c = DimSweep then 0 else if c = DimRep then 1 else 1000"]
  by (simp add: dims_union_def sortprio_def same_dim_def isinstance_def)

subsection \<open>Reshaping to a target collection\<close>

lemma matching_index_from_first:
  assumes "contains sub xs d"
  shows "matching_index_from sub k xs d
         = Inr (k + length (takeWhile (\<lambda>xd. \<not> same_dim sub xd d) xs))"
  using assms by (induction xs arbitrary: k) auto

lemma first_match_less:
  assumes "contains sub xs d"
  shows "length (takeWhile (\<lambda>xd. \<not> same_dim sub xd d) xs) < length xs"
  using assms by (induction xs) auto

lemma first_match_same:
  assumes "contains sub xs d"
  shows "same_dim sub (xs ! length (takeWhile (\<lambda>xd. \<not> same_dim sub xd d) xs)) d"
  using assms by (induction xs) auto

lemma first_match_least:
  assumes "i < length xs" and "same_dim sub (xs ! i) d"
  shows "length (takeWhile (\<lambda>xd. \<not> same_dim sub xd d) xs) \<le> i"
  using assms
proof (induction xs arbitrary: i)
  case Nil
  then show ?case by simp
next
  case (Cons x xs)
  then show ?case by (cases i) auto
qed

lemma shape_and_order_owner:
  assumes v: "length (dims x) = ndim x"
  shows "shape_and_order sub x nd
         = Inr (map (\<lambda>d. if contains sub (dims x) d then shape x ! owner_axis sub x d else 1) nd,
                map (\<lambda>d. int (owner_axis sub x d)) (filter (contains sub (dims x)) nd))"
proof (induction nd)
  case Nil
  show ?case by simp
next
  case (Cons d nd)
  show ?case
  proof (cases "contains sub (dims x) d")
    case True
    have m: "matching_index sub (dims x) d = Inr (owner_axis sub x d)"
      using matching_index_from_first [OF True, of 0] by (simp add: matching_index_def owner_axis_def)
    have "owner_axis sub x d < length (shape x)"
      using first_match_less [OF True] v by (simp add: owner_axis_def ndim_def)
    then have "py_index (shape x) (int (owner_axis sub x d)) = Inr (shape x ! owner_axis sub x d)"
      by (rule py_index_nat)
    then show ?thesis using True m Cons by (simp add: and_then_def)
  next
    case False
    then show ?thesis using Cons by (simp add: and_then_def)
  qed
qed

lemma owned_axes_range:
  assumes v: "length (dims x) = ndim x"
  shows "set (map (owner_axis sub x) (filter (contains sub (dims x)) nd)) \<subseteq> {0..<ndim x}"
proof
  fix i assume "i \<in> set (map (owner_axis sub x) (filter (contains sub (dims x)) nd))"
  then obtain d where d: "contains sub (dims x) d" "i = owner_axis sub x d" by auto
  from first_match_less [OF d(1)] v show "i \<in> {0..<ndim x}"
    by (simp add: d(2) owner_axis_def)
qed

lemma prod_list_insert_ones:
  "prod_list (map (\<lambda>d. if c d then f d else 1) ds) = prod_list (map f (filter c ds))"
  by (induction ds) simp_all

lemma change_shape_one_to_one:
  assumes v: "length (dims x) = ndim x"
    and pm: "mset (map (owner_axis sub x) (filter (contains sub (dims x)) newdims)) = mset [0..<ndim x]"
  shows "change_shape sub x newdims
         = Inr \<lparr>shape = map (\<lambda>d. if contains sub (dims x) d then shape x ! owner_axis sub x d else 1)
                          newdims,
                elems = elems (permute_axes x
                          (map (owner_axis sub x) (filter (contains sub (dims x)) newdims))),
                dims = newdims\<rparr>"
proof -
  let ?own = "filter (contains sub (dims x)) newdims"
  let ?p = "map (owner_axis sub x) ?own"
  have vw: "view_hf x = Inr x"
    using v by (simp add: view_hf_def hfarray_new_def and_then_def verify_dimension_def
        asarray_def ndim_def)
  have so: "shape_and_order sub x newdims
            = Inr (map (\<lambda>d. if contains sub (dims x) d then shape x ! owner_axis sub x d else 1) newdims,
                   map int ?p)"
    using shape_and_order_owner [OF v, of sub newdims] by (simp add: comp_def)
  have tr: "transpose_hf x (map int ?p) = Inr ((permute_axes x ?p)\<lparr>dims := map (\<lambda>k. dims x ! k) ?p\<rparr>)"
    by (rule transpose_hf_perm [OF pm v])
  have sz: "prod_list (map (\<lambda>d. if contains sub (dims x) d then shape x ! owner_axis sub x d else 1) newdims)
            = prod_list (shape (permute_axes x ?p))"
    by (simp add: prod_list_insert_ones permute_axes_def comp_def)
  show ?thesis
    unfolding change_shape_def
    by (simp add: vw so tr and_then_def shape_setter_def sz dims_setter_def del: map_map)
qed

lemma change_shape_not_one_to_one:
  assumes v: "length (dims x) = ndim x"
    and ne: "filter (contains sub (dims x)) newdims \<noteq> []"
    and pm: "mset (map (owner_axis sub x) (filter (contains sub (dims x)) newdims)) \<noteq> mset [0..<ndim x]"
  shows "change_shape sub x newdims = Inl ValueError"
proof -
  let ?own = "filter (contains sub (dims x)) newdims"
  let ?p = "map (owner_axis sub x) ?own"
  have vw: "view_hf x = Inr x"
    using v by (simp add: view_hf_def hfarray_new_def and_then_def verify_dimension_def
        asarray_def ndim_def)
  have so: "shape_and_order sub x newdims
            = Inr (map (\<lambda>d. if contains sub (dims x) d then shape x ! owner_axis sub x d else 1) newdims,
                   map int ?p)"
    using shape_and_order_owner [OF v, of sub newdims] by (simp add: comp_def)
  have rg: "set ?p \<subseteq> {0..<ndim x}" by (rule owned_axes_range [OF v])
  have nt: "ndarray_transpose x (map int ?p) = Inl ValueError"
  proof (cases "length ?p = ndim x")
    case False
    then show ?thesis using ne by (simp add: ndarray_transpose_def)
  next
    case True
    have "\<not> distinct ?p"
    proof
      assume d: "distinct ?p"
      have "card (set ?p) = length ?p" using d by (rule distinct_card)
      also have "\<dots> = card {0..<ndim x}" using True by (simp only: card_atLeastLessThan minus_nat.diff_0)
      finally have "card (set ?p) = card {0..<ndim x}" .
      with rg have "set ?p = {0..<ndim x}" by (intro card_subset_eq) simp_all
      then have "set ?p = set [0..<ndim x]" by simp
      then have "mset ?p = mset [0..<ndim x]"
        using set_eq_iff_mset_eq_distinct [OF d distinct_upt, of 0 "ndim x"] by simp
      with pm show False by simp
    qed
    moreover have rng: "\<forall>i \<in> set (map int ?p). - int (ndim x) \<le> i \<and> i < int (ndim x)"
      using rg by auto
    moreover have "map (\<lambda>i. nat (if i < 0 then i + int (ndim x) else i)) (map int ?p) = ?p"
      by (simp add: comp_def)
    ultimately have "convert_axes (ndim x) [] (map int ?p) = Inl ValueError"
      using convert_axes_in_range [OF rng, of "[]"] by (simp del: map_map)
    then show ?thesis using ne True by (simp add: ndarray_transpose_def and_then_def)
  qed
  have "transpose_hf x (map int ?p) = Inl ValueError"
    using ne nt by (simp add: transpose_hf_def and_then_def)
  then show ?thesis
    unfolding change_shape_def by (simp add: vw so and_then_def)
qed

lemma owned_axes_distinct_names:
  assumes v: "length (dims x) = ndim x"
    and dx: "distinct (map name (dims x))"
    and dn: "distinct (map name nd)"
    and sup: "\<forall>xd \<in> set (dims x). \<exists>d \<in> set nd. same_dim sub xd d"
  shows "mset (map (owner_axis sub x) (filter (contains sub (dims x)) nd)) = mset [0..<ndim x]"
proof -
  let ?own = "filter (contains sub (dims x)) nd"
  let ?p = "map (owner_axis sub x) ?own"
  have nm: "name (dims x ! owner_axis sub x d) = name d" if "contains sub (dims x) d" for d
    using first_match_same [OF that] by (simp add: owner_axis_def same_dim_def)
  have "inj_on (owner_axis sub x) (set ?own)"
  proof (rule inj_onI)
    fix a b assume a: "a \<in> set ?own" and b: "b \<in> set ?own"
      and e: "owner_axis sub x a = owner_axis sub x b"
    have "name a = name (dims x ! owner_axis sub x a)" using a by (simp add: nm)
    also have "\<dots> = name b" using b by (simp add: e nm)
    finally show "a = b" using a b dn by (auto simp: distinct_map dest: inj_onD)
  qed
  moreover have "distinct ?own" using dn by (simp add: distinct_map)
  ultimately have dp: "distinct ?p" by (simp add: distinct_map)
  have "set ?p = {0..<ndim x}"
  proof (intro equalityI subsetI)
    fix i assume "i \<in> set ?p"
    then show "i \<in> {0..<ndim x}" using owned_axes_range [OF v, of sub nd] by blast
  next
    fix i assume "i \<in> {0..<ndim x}"
    then have i: "i < length (dims x)" using v by simp
    then have m: "dims x ! i \<in> set (dims x)" by simp
    with sup obtain d where d: "d \<in> set nd" "same_dim sub (dims x ! i) d" by blast
    then have c: "contains sub (dims x) d" using m by (auto simp: contains_iff)
    let ?j = "owner_axis sub x d"
    have j: "?j < length (dims x)" using first_match_less [OF c] by (simp add: owner_axis_def)
    have "name (dims x ! ?j) = name (dims x ! i)" using nm [OF c] d(2) by (simp add: same_dim_def)
    then have "map name (dims x) ! ?j = map name (dims x) ! i" using i j by simp
    moreover have "?j < length (map name (dims x))" "i < length (map name (dims x))"
      using i j by simp_all
    ultimately have "?j = i" using nth_eq_iff_index_eq [OF dx] by blast
    then show "i \<in> set ?p" using c d(1) by force
  qed
  then have "set ?p = set [0..<ndim x]" by simp
  then show ?thesis using set_eq_iff_mset_eq_distinct [OF dp distinct_upt, of 0 "ndim x"] by simp
qed


lemma transpose_hf_reverse:
  assumes v: "length (dims x) = ndim x"
  shows "transpose_hf x []
         = Inr ((permute_axes x (rev [0..<ndim x]))\<lparr>dims := map (\<lambda>k. dims x ! k) (rev [0..<ndim x])\<rparr>)"
proof -
  have "transpose_hf x [] = transpose_hf x (map int (rev [0..<ndim x]))"
    by (simp add: transpose_hf_def rev_map)
  also have "\<dots> = Inr ((permute_axes x (rev [0..<ndim x]))\<lparr>dims := map (\<lambda>k. dims x ! k) (rev [0..<ndim x])\<rparr>)"
    by (rule transpose_hf_perm [OF _ v]) simp
  finally show ?thesis .
qed

lemma prod_list_reversed_shape:
  "prod_list (map (\<lambda>k. s ! k) (rev [0..<length s])) = prod_list (s :: nat list)"
proof -
  have "map (\<lambda>k. s ! k) (rev [0..<length s]) = rev (map (\<lambda>k. s ! k) [0..<length s])"
    by (simp add: rev_map)
  also have "\<dots> = rev s" by (simp add: map_nth)
  finally show ?thesis by (simp add: prod_list.rev)
qed

lemma change_shape_nothing_owned:
  assumes v: "length (dims x) = ndim x"
    and ne: "filter (contains sub (dims x)) newdims = []"
  shows "change_shape sub x newdims
         = (if prod_list (shape x) = 1
            then Inr \<lparr>shape = map (\<lambda>d. 1) newdims,
                      elems = elems (permute_axes x (rev [0..<ndim x])),
                      dims = newdims\<rparr>
            else Inl ValueError)"
proof -
  have vw: "view_hf x = Inr x"
    using v by (simp add: view_hf_def hfarray_new_def and_then_def verify_dimension_def
        asarray_def ndim_def)
  have nc: "\<not> contains sub (dims x) d" if "d \<in> set newdims" for d
    using ne that by (auto simp: filter_empty_conv)
  have sh: "map (\<lambda>d. if contains sub (dims x) d then shape x ! owner_axis sub x d else 1) newdims
            = map (\<lambda>d. 1) newdims"
    by (rule map_cong [OF refl]) (simp add: nc)
  have so: "shape_and_order sub x newdims = Inr (map (\<lambda>d. 1) newdims, [])"
    using shape_and_order_owner [OF v, of sub newdims] by (simp add: ne sh)
  have sz: "prod_list (shape (permute_axes x (rev [0..<ndim x]))) = prod_list (shape x)"
    using prod_list_reversed_shape [of "shape x"] by (simp add: permute_axes_def ndim_def)
  have one: "prod_list (map (\<lambda>d. Suc 0) newdims) = Suc 0" by (induction newdims) simp_all
  show ?thesis
    unfolding change_shape_def
    by (simp add: vw so transpose_hf_reverse [OF v] and_then_def shape_setter_def sz dims_setter_def
        one eq_commute [of "Suc 0"] del: map_map)
qed

text \<open>
  C4, as the claim states it, fails: a target that is a superset of the descriptors of \<open>x\<close>
  can make \<^verbatim>\<open>change_shape\<close> raise. With every dimension class a subclass of \<^verbatim>\<open>DimBase\<close>, the
  array with the one sweep descriptor named \<open>x\<close> owns both descriptors of the target
  \<^verbatim>\<open>[DimBase x, DimSweep x]\<close>; \<^verbatim>\<open>neworder\<close> is \<^verbatim>\<open>[0, 0]\<close>, and the transposition raises
  \<^verbatim>\<open>ValueError\<close>.
\<close>

theorem change_shape_superset_counterexample:
  "set (dims \<lparr>shape = [2], elems = [1, 2 :: int],
               dims = [\<lparr>name = ''x'', cls = DimSweep, data = [1, 2], unit = None\<rparr>]\<rparr>)
     \<subseteq> set [\<lparr>name = ''x'', cls = DimBase, data = [1, 2], unit = None\<rparr>,
             \<lparr>name = ''x'', cls = DimSweep, data = [1, 2], unit = None\<rparr>]
   \<and> change_shape (\<lambda>c d. d = DimBase \<and> c \<noteq> DimBase)
       \<lparr>shape = [2], elems = [1, 2 :: int],
        dims = [\<lparr>name = ''x'', cls = DimSweep, data = [1, 2], unit = None\<rparr>]\<rparr>
       [\<lparr>name = ''x'', cls = DimBase, data = [1, 2], unit = None\<rparr>,
        \<lparr>name = ''x'', cls = DimSweep, data = [1, 2], unit = None\<rparr>]
     = Inl ValueError"
  by (simp add: change_shape_def view_hf_def hfarray_new_def verify_dimension_def asarray_def
      ndim_def and_then_def same_dim_def isinstance_def matching_index_def py_index_def
      transpose_hf_def ndarray_transpose_def normalize_axis_def)

text \<open>
  C4 as amended. Let \<open>x\<close> be a labeled array (as many descriptors as axes) and \<open>newdims\<close>
  any target collection. The target descriptors that \<open>x\<close> owns are those that \<open>x.dims\<close>
  contains, and each of them stands for the axis \<^verbatim>\<open>matching_index\<close> gives it.
  \<^item> If these axes, in target order, name every axis of \<open>x\<close> exactly once, \<^verbatim>\<open>change_shape\<close>
    raises nothing and returns the array whose dimension collection is \<open>newdims\<close> (so its
    rank is the length of \<open>newdims\<close>), whose axis for an owned descriptor has the size of
    the axis of \<open>x\<close> it stands for, whose axis for any other descriptor has size 1, and
    whose elements are those of the buffer of \<open>x\<close> with its axes permuted into target order.
  \<^item> If \<open>x\<close> owns no target descriptor (and has an axis) the buffer is transposed without
    arguments, and the result has \<open>newdims\<close> and size 1 on every axis when \<open>x\<close> has exactly
    one element; otherwise the assignment of the shape raises \<^verbatim>\<open>ValueError\<close>.
  \<^item> In every other case (an axis of \<open>x\<close> named twice, or not named at all, by the owned
    target descriptors) the transposition raises \<^verbatim>\<open>ValueError\<close>.

  By \<open>owned_axes_distinct_names\<close> the first case is the one of a target that matches every
  descriptor of \<open>x\<close> when the names are pairwise different in \<open>x\<close> and in the target.
\<close>

theorem change_shape_owned_axes:
  assumes "length (dims x) = ndim x"
  shows "change_shape sub x newdims
         = (if mset (map (owner_axis sub x) (filter (contains sub (dims x)) newdims)) = mset [0..<ndim x]
            then Inr \<lparr>shape = map (\<lambda>d. if contains sub (dims x) d then shape x ! owner_axis sub x d
                                        else 1) newdims,
                      elems = elems (permute_axes x
                                (map (owner_axis sub x) (filter (contains sub (dims x)) newdims))),
                      dims = newdims\<rparr>
            else if filter (contains sub (dims x)) newdims = [] \<and> prod_list (shape x) = 1
            then Inr \<lparr>shape = map (\<lambda>d. 1) newdims,
                      elems = elems (permute_axes x (rev [0..<ndim x])),
                      dims = newdims\<rparr>
            else Inl ValueError)"
proof (cases "mset (map (owner_axis sub x) (filter (contains sub (dims x)) newdims)) = mset [0..<ndim x]")
  case True
  show ?thesis by (subst if_P [OF True]) (rule change_shape_one_to_one [OF assms True])
next
  case False
  show ?thesis
  proof (cases "filter (contains sub (dims x)) newdims = []")
    case True
    show ?thesis using False True change_shape_nothing_owned [OF assms True] by simp
  next
    case ne: False
    show ?thesis using False ne change_shape_not_one_to_one [OF assms ne False] by simp
  qed
qed


theorem change_shape_owned_axes_witness:
  "change_shape (\<lambda>c d. d = DimBase \<and> c \<noteq> DimBase)
     \<lparr>shape = [3, 2], elems = [1, 2, 3, 4, 5, 6 :: int],
      dims = [\<lparr>name = ''rep'', cls = DimRep, data = [0, 1, 2], unit = None\<rparr>,
              \<lparr>name = ''freq'', cls = DimSweep, data = [1, 2], unit = None\<rparr>]\<rparr>
     [\<lparr>name = ''freq'', cls = DimSweep, data = [1, 2], unit = None\<rparr>,
      \<lparr>name = ''rep'', cls = DimRep, data = [0, 1, 2], unit = None\<rparr>,
      \<lparr>name = ''i'', cls = DimMatrix_i, data = [0, 1], unit = None\<rparr>]
   = Inr \<lparr>shape = [2, 3, 1], elems = [1, 3, 5, 2, 4, 6],
          dims = [\<lparr>name = ''freq'', cls = DimSweep, data = [1, 2], unit = None\<rparr>,
                  \<lparr>name = ''rep'', cls = DimRep, data = [0, 1, 2], unit = None\<rparr>,
                  \<lparr>name = ''i'', cls = DimMatrix_i, data = [0, 1], unit = None\<rparr>]\<rparr>
   \<and> change_shape (\<lambda>c d. d = DimBase \<and> c \<noteq> DimBase)
       \<lparr>shape = [2], elems = [7, 8 :: int],
        dims = [\<lparr>name = ''x'', cls = DimSweep, data = [1, 2], unit = None\<rparr>]\<rparr>
       [\<lparr>name = ''x'', cls = DimBase, data = [1, 2], unit = None\<rparr>,
        \<lparr>name = ''y'', cls = DimRep, data = [0], unit = None\<rparr>]
     = Inr \<lparr>shape = [2, 1], elems = [7, 8],
            dims = [\<lparr>name = ''x'', cls = DimBase, data = [1, 2], unit = None\<rparr>,
                    \<lparr>name = ''y'', cls = DimRep, data = [0], unit = None\<rparr>]\<rparr>
   \<and> change_shape (\<lambda>c d. d = DimBase \<and> c \<noteq> DimBase)
       \<lparr>shape = [2], elems = [7, 8 :: int],
        dims = [\<lparr>name = ''x'', cls = DimSweep, data = [1, 2], unit = None\<rparr>]\<rparr>
       [\<lparr>name = ''x'', cls = DimSweep, data = [1, 2], unit = None\<rparr>,
        \<lparr>name = ''x'', cls = DimSweep, data = [1, 2], unit = None\<rparr>]
     = Inl ValueError"
  using change_shape_owned_axes [of
      "\<lparr>shape = [3, 2], elems = [1, 2, 3, 4, 5, 6 :: int],
      dims = [\<lparr>name = ''rep'', cls = DimRep, data = [0, 1, 2], unit = None\<rparr>,
              \<lparr>name = ''freq'', cls = DimSweep, data = [1, 2], unit = None\<rparr>]\<rparr>"
      "\<lambda>c d. d = DimBase \<and> c \<noteq> DimBase"
      "[\<lparr>name = ''freq'', cls = DimSweep, data = [1, 2], unit = None\<rparr>,
      \<lparr>name = ''rep'', cls = DimRep, data = [0, 1, 2], unit = None\<rparr>,
      \<lparr>name = ''i'', cls = DimMatrix_i, data = [0, 1], unit = None\<rparr>]"]
    change_shape_owned_axes [of
      "\<lparr>shape = [2], elems = [7, 8 :: int],
        dims = [\<lparr>name = ''x'', cls = DimSweep, data = [1, 2], unit = None\<rparr>]\<rparr>"
      "\<lambda>c d. d = DimBase \<and> c \<noteq> DimBase"
      "[\<lparr>name = ''x'', cls = DimBase, data = [1, 2], unit = None\<rparr>,
        \<lparr>name = ''y'', cls = DimRep, data = [0], unit = None\<rparr>]"]
    change_shape_owned_axes [of
      "\<lparr>shape = [2], elems = [7, 8 :: int],
        dims = [\<lparr>name = ''x'', cls = DimSweep, data = [1, 2], unit = None\<rparr>]\<rparr>"
      "\<lambda>c d. d = DimBase \<and> c \<noteq> DimBase"
      "[\<lparr>name = ''x'', cls = DimSweep, data = [1, 2], unit = None\<rparr>,
        \<lparr>name = ''x'', cls = DimSweep, data = [1, 2], unit = None\<rparr>]"]
  by (simp add: ndim_def same_dim_def isinstance_def owner_axis_def permute_axes_def item_def
      source_index_def upt_rec)

subsection \<open>Axis resolution by class\<close>

lemma resolve_all_classes:
  "resolve_all deq sub a (map AxClass cs)
   = Inr (map snd (concat (map (\<lambda>c. filter (\<lambda>(i, d). isinstance sub d c) (enumerate 0 (dims a))) cs)),
          map (\<lambda>(i, d). int i)
            (concat (map (\<lambda>c. filter (\<lambda>(i, d). isinstance sub d c) (enumerate 0 (dims a))) cs)))"
  by (induction cs) (simp_all add: and_then_def Let_def)

text \<open>
  C6 as amended. For a dimension class, \<^verbatim>\<open>axis_handler\<close> returns the member of that class
  when exactly one is present and raises \<^verbatim>\<open>IndexError\<close> when none or several are.
  \<^verbatim>\<open>multiple_axis_handler\<close> has no such rule: for each class of the sequence it returns every
  member of the class with its position, in the order of the collection, and raises
  nothing.
\<close>

theorem axis_resolution_by_class:
  "(length (filter (\<lambda>d. isinstance sub d c) (dims a)) = 1 \<longrightarrow>
      axis_handler sub a (Some (AxClass c)) = Inr (Some (hd (filter (\<lambda>d. isinstance sub d c) (dims a)))))
   \<and> (length (filter (\<lambda>d. isinstance sub d c) (dims a)) \<noteq> 1 \<longrightarrow>
      axis_handler sub a (Some (AxClass c)) = Inl IndexError)
   \<and> multiple_axis_handler deq sub a (Many (map AxClass cs))
     = Inr (Some
         (map snd (concat (map (\<lambda>c. filter (\<lambda>(i, d). isinstance sub d c) (enumerate 0 (dims a))) cs)),
          map (\<lambda>(i, d). int i)
            (concat (map (\<lambda>c. filter (\<lambda>(i, d). isinstance sub d c) (enumerate 0 (dims a))) cs))))
   \<and> multiple_axis_handler deq sub a (One (AxClass c))
     = Inr (Some
         (map snd (filter (\<lambda>(i, d). isinstance sub d c) (enumerate 0 (dims a))),
          map (\<lambda>(i, d). int i) (filter (\<lambda>(i, d). isinstance sub d c) (enumerate 0 (dims a)))))"
proof (intro conjI impI)
  assume "length (filter (\<lambda>d. isinstance sub d c) (dims a)) = 1"
  then obtain d where "filter (\<lambda>d. isinstance sub d c) (dims a) = [d]"
    by (cases "filter (\<lambda>d. isinstance sub d c) (dims a)") auto
  then show "axis_handler sub a (Some (AxClass c))
             = Inr (Some (hd (filter (\<lambda>d. isinstance sub d c) (dims a))))"
    by (simp add: axis_handler_def)
next
  assume "length (filter (\<lambda>d. isinstance sub d c) (dims a)) \<noteq> 1"
  then show "axis_handler sub a (Some (AxClass c)) = Inl IndexError"
    by (auto simp: axis_handler_def split: list.splits)
next
  show "multiple_axis_handler deq sub a (Many (map AxClass cs))
     = Inr (Some
         (map snd (concat (map (\<lambda>c. filter (\<lambda>(i, d). isinstance sub d c) (enumerate 0 (dims a))) cs)),
          map (\<lambda>(i, d). int i)
            (concat (map (\<lambda>c. filter (\<lambda>(i, d). isinstance sub d c) (enumerate 0 (dims a))) cs))))"
    by (simp add: multiple_axis_handler_def resolve_all_classes and_then_def)
next
  show "multiple_axis_handler deq sub a (One (AxClass c))
     = Inr (Some
         (map snd (filter (\<lambda>(i, d). isinstance sub d c) (enumerate 0 (dims a))),
          map (\<lambda>(i, d). int i) (filter (\<lambda>(i, d). isinstance sub d c) (enumerate 0 (dims a)))))"
    using resolve_all_classes [of deq sub a "[c]"]
    by (simp add: multiple_axis_handler_def and_then_def)
qed

text \<open>
  C6, as the claim states it, fails for \<^verbatim>\<open>multiple_axis_handler\<close>: with two sweep
  dimensions, and with no repetition dimension, \<^verbatim>\<open>axis_handler\<close> raises, while
  \<^verbatim>\<open>multiple_axis_handler\<close> returns both sweep dimensions, and nothing for the repetition
  class.
\<close>

theorem multiple_axis_handler_counterexample:
  "axis_handler (\<lambda>c d. False)
     \<lparr>shape = [2, 2], elems = [1, 2, 3, 4 :: int],
      dims = [\<lparr>name = ''f'', cls = DimSweep, data = [1, 2], unit = None\<rparr>,
              \<lparr>name = ''g'', cls = DimSweep, data = [1, 2], unit = None\<rparr>]\<rparr>
     (Some (AxClass DimSweep)) = Inl IndexError
   \<and> multiple_axis_handler (\<lambda>x y. False) (\<lambda>c d. False)
     \<lparr>shape = [2, 2], elems = [1, 2, 3, 4 :: int],
      dims = [\<lparr>name = ''f'', cls = DimSweep, data = [1, 2], unit = None\<rparr>,
              \<lparr>name = ''g'', cls = DimSweep, data = [1, 2], unit = None\<rparr>]\<rparr>
     (Many [AxClass DimSweep])
     = Inr (Some ([\<lparr>name = ''f'', cls = DimSweep, data = [1, 2], unit = None\<rparr>,
                   \<lparr>name = ''g'', cls = DimSweep, data = [1, 2], unit = None\<rparr>], [0, 1]))
   \<and> axis_handler (\<lambda>c d. False)
     \<lparr>shape = [2, 2], elems = [1, 2, 3, 4 :: int],
      dims = [\<lparr>name = ''f'', cls = DimSweep, data = [1, 2], unit = None\<rparr>,
              \<lparr>name = ''g'', cls = DimSweep, data = [1, 2], unit = None\<rparr>]\<rparr>
     (Some (AxClass DimRep)) = Inl IndexError
   \<and> multiple_axis_handler (\<lambda>x y. False) (\<lambda>c d. False)
     \<lparr>shape = [2, 2], elems = [1, 2, 3, 4 :: int],
      dims = [\<lparr>name = ''f'', cls = DimSweep, data = [1, 2], unit = None\<rparr>,
              \<lparr>name = ''g'', cls = DimSweep, data = [1, 2], unit = None\<rparr>]\<rparr>
     (Many [AxClass DimRep]) = Inr (Some ([], []))"
  by (simp add: axis_handler_def multiple_axis_handler_def and_then_def isinstance_def)

theorem axis_resolution_by_class_witness:
  "axis_handler (\<lambda>c d. False)
     \<lparr>shape = [3, 2], elems = [1, 2, 3, 4, 5, 6 :: int],
      dims = [\<lparr>name = ''freq'', cls = DimSweep, data = [1, 2, 3], unit = None\<rparr>,
              \<lparr>name = ''rep'', cls = DimRep, data = [0, 1], unit = None\<rparr>]\<rparr>
     (Some (AxClass DimRep))
   = Inr (Some \<lparr>name = ''rep'', cls = DimRep, data = [0, 1], unit = None\<rparr>)
   \<and> multiple_axis_handler (\<lambda>x y. False) (\<lambda>c d. False)
     \<lparr>shape = [3, 2], elems = [1, 2, 3, 4, 5, 6 :: int],
      dims = [\<lparr>name = ''freq'', cls = DimSweep, data = [1, 2, 3], unit = None\<rparr>,
              \<lparr>name = ''rep'', cls = DimRep, data = [0, 1], unit = None\<rparr>]\<rparr>
     (One (AxClass DimRep))
   = Inr (Some ([\<lparr>name = ''rep'', cls = DimRep, data = [0, 1], unit = None\<rparr>], [1]))"
  using axis_resolution_by_class [of "\<lambda>c d. False" DimRep
      "\<lparr>shape = [3, 2], elems = [1, 2, 3, 4, 5, 6 :: int],
      dims = [\<lparr>name = ''freq'', cls = DimSweep, data = [1, 2, 3], unit = None\<rparr>,
              \<lparr>name = ''rep'', cls = DimRep, data = [0, 1], unit = None\<rparr>]\<rparr>"
      "\<lambda>x y. False" "[]"]
  by (simp add: isinstance_def)

subsection \<open>Reductions\<close>

lemma index_from_bound: "index_from deq k xs v = Inr i \<Longrightarrow> k \<le> i \<and> i < k + length xs"
proof (induction xs arbitrary: k)
  case Nil
  then show ?case by simp
next
  case (Cons x xs)
  then show ?case by (fastforce split: if_splits)
qed

lemma dims_index_from_bound:
  "dims_index_from eq sub k xs key c = Inr i \<Longrightarrow> k \<le> i \<and> i < k + length xs"
proof (induction xs arbitrary: k)
  case Nil
  then show ?case by simp
next
  case (Cons x xs)
  then show ?case by (fastforce split: if_splits option.splits)
qed

lemma resolve_dim_range:
  assumes "resolve_dim deq sub a d = Inr (ds, idxs)"
  shows "length ds = length idxs \<and> (\<forall>i \<in> set idxs. 0 \<le> i \<and> i < int (length (dims a)))"
proof -
  from assms obtain k where k: "py_list_index deq (dims a) d = Inr k" "ds = [d]" "idxs = [int k]"
    by (auto simp: resolve_dim_def and_then_def split: if_splits sum.splits)
  from index_from_bound [of deq 0 "dims a" d k] k(1) have "k < length (dims a)"
    by (simp add: py_list_index_def)
  with k show ?thesis by simp
qed

lemma enumerate_fst_bound: "(i, x) \<in> set (enumerate k xs) \<Longrightarrow> k \<le> i \<and> i < k + length xs"
  by (auto simp: in_set_enumerate_eq)

lemma resolve_spec_range:
  assumes "resolve_spec deq sub a ax = Inr (ds, idxs)"
  shows "length ds = length idxs
         \<and> (\<forall>i \<in> set idxs. - int (length (dims a)) \<le> i \<and> i < int (length (dims a)))"
proof (cases ax)
  case (AxInt i)
  with assms show ?thesis
    by (auto simp: and_then_def py_index_def split: if_splits sum.splits)
next
  case (AxName n)
  with assms obtain i d where "py_index (dims a) (int i) = Inr d" "resolve_dim deq sub a d = Inr (ds, idxs)"
    by (auto simp: and_then_def split: sum.splits)
  from resolve_dim_range [OF this(2)] show ?thesis by force
next
  case (AxClass c)
  with assms have ds: "ds = map snd (filter (\<lambda>(dimidx, d). isinstance sub d c) (enumerate 0 (dims a)))"
    and ix: "idxs = map (\<lambda>(dimidx, d). int dimidx) (filter (\<lambda>(dimidx, d). isinstance sub d c) (enumerate 0 (dims a)))"
    by (simp_all add: Let_def)
  have "\<forall>i \<in> set idxs. 0 \<le> i \<and> i < int (length (dims a))"
    unfolding ix using enumerate_fst_bound [of _ _ 0 "dims a"] by fastforce
  then show ?thesis using ds ix by force
next
  case (AxDim d)
  with assms have "resolve_dim deq sub a d = Inr (ds, idxs)" by simp
  from resolve_dim_range [OF this] show ?thesis by force
qed

lemma resolve_all_range:
  assumes "resolve_all deq sub a axs = Inr (ds, idxs)"
  shows "length ds = length idxs
         \<and> (\<forall>i \<in> set idxs. - int (length (dims a)) \<le> i \<and> i < int (length (dims a)))"
  using assms
proof (induction axs arbitrary: ds idxs)
  case Nil
  then show ?case by simp
next
  case (Cons ax axs)
  from Cons.prems obtain d1 i1 d2 i2 where
    a: "resolve_spec deq sub a ax = Inr (d1, i1)" and
    b: "resolve_all deq sub a axs = Inr (d2, i2)" and
    c: "ds = d1 @ d2" "idxs = i1 @ i2"
    by (auto simp: and_then_def split: sum.splits prod.splits)
  from resolve_spec_range [OF a] Cons.IH [OF b] c show ?case by auto
qed

lemma multiple_axis_handler_range:
  assumes "multiple_axis_handler deq sub a s = Inr (Some (ds, idxs))"
  shows "length ds = length idxs
         \<and> (\<forall>i \<in> set idxs. - int (length (dims a)) \<le> i \<and> i < int (length (dims a)))"
proof (cases s)
  case NoAxis
  with assms show ?thesis by (simp add: multiple_axis_handler_def)
next
  case (One ax)
  with assms have "resolve_all deq sub a [ax] = Inr (ds, idxs)"
    by (auto simp: multiple_axis_handler_def and_then_def split: sum.splits)
  then show ?thesis by (rule resolve_all_range)
next
  case (Many axs)
  with assms have "resolve_all deq sub a axs = Inr (ds, idxs)"
    by (auto simp: multiple_axis_handler_def and_then_def split: sum.splits)
  then show ?thesis by (rule resolve_all_range)
qed

lemma convert_axes_nonneg:
  assumes "distinct idxs" and "\<forall>i \<in> set idxs. 0 \<le> i \<and> i < int n"
  shows "convert_axes n [] idxs = Inr (map nat idxs)"
proof -
  have e: "map int (map nat idxs) = idxs" using assms(2) by (simp add: map_idI)
  have "inj_on nat (set idxs)"
  proof (rule inj_onI)
    fix x y assume "x \<in> set idxs" "y \<in> set idxs" "nat x = nat y"
    moreover from this assms(2) have "0 \<le> x" "0 \<le> y" by auto
    ultimately show "x = y" by simp
  qed
  then have "distinct (map nat idxs)" using assms(1) by (simp add: distinct_map)
  moreover have "set (map nat idxs) \<subseteq> {0..<n}" using assms(2) by auto
  ultimately have "convert_axes n [] (map int (map nat idxs)) = Inr (map nat idxs)"
    by (intro convert_axes_nat) simp_all
  then show ?thesis by (simp only: e)
qed

lemma resolve_all_ints:
  assumes "\<forall>i \<in> set idxs. 0 \<le> i \<and> i < int (length (dims a))"
  shows "resolve_all deq sub a (map AxInt idxs) = Inr (map (\<lambda>i. dims a ! nat i) idxs, idxs)"
  using assms by (induction idxs) (simp_all add: and_then_def py_index_def)

lemma enumerate_filter_nth:
  "map snd (filter (\<lambda>(i, x). P i) (enumerate 0 xs)) = map (\<lambda>k. xs ! k) (filter P [0..<length xs])"
proof -
  have "enumerate 0 xs = map (\<lambda>k. (k, xs ! k)) [0..<length xs]"
    by (rule nth_equalityI) (simp_all add: nth_enumerate_eq)
  then show ?thesis by (simp add: filter_map comp_def)
qed

lemma length_filter_not_member:
  assumes "distinct p" and "set p \<subseteq> {0..<n}"
  shows "length (filter (\<lambda>k. k \<notin> set p) [0..<n]) = n - length p"
proof -
  have "length (filter (\<lambda>k. k \<in> set p) [0..<n]) = card ({k. k \<in> set p} \<inter> set [0..<n])"
    by (rule distinct_length_filter) simp
  also have "{k. k \<in> set p} \<inter> set [0..<n] = set p" using assms(2) by auto
  finally have "length (filter (\<lambda>k. k \<in> set p) [0..<n]) = length p"
    using assms(1) by (simp add: distinct_card)
  moreover have "length (filter (\<lambda>k. k \<in> set p) [0..<n])
                 + length (filter (\<lambda>k. \<not> k \<in> set p) [0..<n]) = length [0..<n]"
    by (rule sum_length_filter_compl)
  ultimately show ?thesis by simp
qed


lemma reduction_axes:
  assumes v: "length (dims A) = ndim A"
    and r: "multiple_axis_handler deq sub A s = Inr (Some (ds, idxs))"
    and d: "distinct idxs" and nn: "\<forall>i \<in> set idxs. 0 \<le> i"
  shows "(\<exists>R. reduction f deq sub A s False dimerror = Inr R
            \<and> dims R = map (\<lambda>k. dims A ! k) (filter (\<lambda>k. int k \<notin> set idxs) [0..<ndim A])
            \<and> shape R = map (\<lambda>k. shape A ! k) (filter (\<lambda>k. int k \<notin> set idxs) [0..<ndim A])
            \<and> length (dims R) = length (dims A) - length idxs)
       \<and> (\<exists>R. reduction f deq sub A s True dimerror = Inr R
            \<and> dims R = dims A
            \<and> shape R = map (\<lambda>k. if int k \<in> set idxs then 1 else shape A ! k) [0..<ndim A])"
proof -
  let ?n = "ndim A"
  let ?p = "map nat idxs"
  define rshape where "rshape = map (\<lambda>k. if k \<in> set ?p then 1 else shape A ! k) [0..<?n]"
  define relems where "relems = map (\<lambda>j. f (map (item (asarray A))
       (filter (\<lambda>i. list_all (\<lambda>k. k \<in> set ?p \<or> i ! k = j ! k) [0..<?n]) (indices (shape A)))))
       (indices rshape)"
  define res :: "'a hfarray" where "res = \<lparr>shape = rshape, elems = relems, dims = dims A\<rparr>"
  define keep where "keep = filter (\<lambda>k. k \<notin> set ?p) [0..<?n]"
  from multiple_axis_handler_range [OF r] nn v
  have rng: "\<forall>i \<in> set idxs. 0 \<le> i \<and> i < int ?n" by auto
  have mem: "(k \<in> set ?p) = (int k \<in> set idxs)" for k
  proof
    assume "k \<in> set ?p"
    then obtain i where "i \<in> set idxs" "k = nat i" by auto
    with rng show "int k \<in> set idxs" by simp
  next
    assume "int k \<in> set idxs"
    then have "nat (int k) \<in> nat ` set idxs" by (rule imageI)
    then show "k \<in> set ?p" by simp
  qed
  have mem': "(k \<in> nat ` set idxs) = (int k \<in> set idxs)" for k
    using mem [of k] by simp
  have ca: "convert_axes ?n [] idxs = Inr ?p" by (rule convert_axes_nonneg [OF d rng])
  have na: "ndim (asarray A) = ?n" by (simp add: ndim_def asarray_def)
  have sa: "shape (asarray A) = shape A" by (simp add: asarray_def)
  have rk: "reduce_keepdims f (asarray A) (Some idxs) = Inr \<lparr>shape = rshape, elems = relems\<rparr>"
    unfolding reduce_keepdims_def na sa rshape_def relems_def
    by (simp add: ca and_then_def Let_def)
  have lr: "length rshape = ?n" by (simp add: rshape_def)
  have hn: "hfarray_new (NdArray \<lparr>shape = rshape, elems = relems\<rparr>) (Some (dims A)) = Inr res"
    by (simp add: hfarray_new_def and_then_def verify_dimension_def ndim_def lr v [unfolded ndim_def]
        res_def)
  have t: "reduction f deq sub A s True dimerror = Inr res"
    by (simp add: reduction_def r rk hn and_then_def)
  have st: "shape res = map (\<lambda>k. if int k \<in> set idxs then 1 else shape A ! k) [0..<?n]"
    by (simp add: res_def rshape_def mem')
  \<comment> \<open>the squeeze of the result\<close>
  have nr: "ndim res = ?n" by (simp add: ndim_def res_def lr)
  have rng': "\<forall>i \<in> set idxs. 0 \<le> i \<and> i < int (length (dims res))"
    using rng v by (simp add: res_def)
  have mh: "multiple_axis_handler deq sub res (Many (map AxInt idxs))
            = Inr (Some (map (\<lambda>i. dims res ! nat i) idxs, idxs))"
    by (simp add: multiple_axis_handler_def resolve_all_ints [OF rng'] and_then_def)
  have ni: "map snd (filter (\<lambda>(idx, ax). int idx \<notin> set idxs) (enumerate 0 (dims res)))
            = map (\<lambda>k. dims A ! k) (filter (\<lambda>k. int k \<notin> set idxs) [0..<?n])"
    using enumerate_filter_nth [of "\<lambda>k. int k \<notin> set idxs" "dims A"] by (simp add: res_def v)
  have ones: "\<not> list_ex (\<lambda>k. shape res ! k \<noteq> 1) ?p"
  proof -
    have "shape res ! k = 1" if "k \<in> set ?p" for k
    proof -
      from that rng have "k < ?n" by auto
      then show ?thesis using that by (simp add: res_def rshape_def)
    qed
    then show ?thesis by (simp add: list_ex_iff)
  qed
  have ks: "map (\<lambda>k. shape res ! k) keep = map (\<lambda>k. shape A ! k) keep"
    by (rule map_cong) (auto simp: keep_def res_def rshape_def)
  have sq: "ndarray_squeeze res (Some idxs) = Inr (res\<lparr>shape := map (\<lambda>k. shape A ! k) keep\<rparr>)"
  proof -
    have "ndarray_squeeze res (Some idxs) = Inr (res\<lparr>shape := map (\<lambda>k. shape res ! k) keep\<rparr>)"
      using ones by (simp add: ndarray_squeeze_def nr ca and_then_def keep_def)
    then show ?thesis by (simp only: ks)
  qed
  have kk: "keep = filter (\<lambda>k. int k \<notin> set idxs) [0..<?n]" by (simp add: keep_def mem')
  define R :: "'a hfarray" where
    "R = \<lparr>shape = map (\<lambda>k. shape A ! k) keep, elems = relems, dims = map (\<lambda>k. dims A ! k) keep\<rparr>"
  have hq: "hfarray_new (HfArray (res\<lparr>shape := map (\<lambda>k. shape A ! k) keep\<rparr>))
              (Some (map (\<lambda>k. dims A ! k) keep)) = Inr R"
    by (simp add: hfarray_new_def and_then_def verify_dimension_def ndim_def asarray_def res_def R_def)
  have sz: "squeeze_hf deq sub res (Many (map AxInt idxs)) = Inr R"
    by (simp add: squeeze_hf_def mh and_then_def ni sq kk [symmetric] hq)
  have fl: "reduction f deq sub A s False dimerror = Inr R"
    by (simp add: reduction_def r rk hn and_then_def sz)
  have dp: "distinct ?p"
  proof -
    have "inj_on nat (set idxs)"
    proof (rule inj_onI)
      fix x y assume "x \<in> set idxs" "y \<in> set idxs" "nat x = nat y"
      moreover from this rng have "0 \<le> x" "0 \<le> y" by auto
      ultimately show "x = y" by simp
    qed
    then show ?thesis using d by (simp add: distinct_map)
  qed
  have sp: "set ?p \<subseteq> {0..<?n}" using rng by auto
  have ln: "length keep = ?n - length idxs"
    using length_filter_not_member [OF dp sp] by (simp add: keep_def)
  have "dims R = map (\<lambda>k. dims A ! k) (filter (\<lambda>k. int k \<notin> set idxs) [0..<?n])"
    and "shape R = map (\<lambda>k. shape A ! k) (filter (\<lambda>k. int k \<notin> set idxs) [0..<?n])"
    and "length (dims R) = length (dims A) - length idxs"
    by (simp_all add: R_def kk [symmetric] ln v)
  with fl t st show ?thesis by (auto simp: res_def)
qed


lemma nat_norm_distinct:
  assumes "\<forall>i \<in> set idxs. - int n \<le> i \<and> i < int n"
  shows "distinct (map (\<lambda>i. nat (if i < 0 then i + int n else i)) idxs)
         = distinct (map (\<lambda>i. if i < 0 then i + int n else i) idxs)"
proof -
  have "map (\<lambda>i. nat (if i < 0 then i + int n else i)) idxs
        = map nat (map (\<lambda>i. if i < 0 then i + int n else i) idxs)" by simp
  moreover have "inj_on nat (set (map (\<lambda>i. if i < 0 then i + int n else i) idxs))"
  proof (rule inj_onI)
    fix x y
    assume x: "x \<in> set (map (\<lambda>i. if i < 0 then i + int n else i) idxs)"
      and y: "y \<in> set (map (\<lambda>i. if i < 0 then i + int n else i) idxs)" and e: "nat x = nat y"
    from x assms have "0 \<le> x" by (auto split: if_splits)
    moreover from y assms have "0 \<le> y" by (auto split: if_splits)
    ultimately show "x = y" using e by simp
  qed
  ultimately show ?thesis by (simp only: distinct_map) simp
qed

lemma reduction_duplicate:
  assumes v: "length (dims A) = ndim A"
    and r: "multiple_axis_handler deq sub A s = Inr (Some (ds, idxs))"
    and d: "\<not> distinct (map (\<lambda>i. if i < 0 then i + int (ndim A) else i) idxs)"
  shows "reduction f deq sub A s keepdims dimerror = Inl ValueError"
proof -
  from multiple_axis_handler_range [OF r] v
  have rng: "\<forall>i \<in> set idxs. - int (ndim A) \<le> i \<and> i < int (ndim A)" by simp
  have na: "ndim (asarray A) = ndim A" by (simp add: ndim_def asarray_def)
  have "convert_axes (ndim A) [] idxs = Inl ValueError"
    using d by (simp add: convert_axes_in_range [OF rng] nat_norm_distinct [OF rng])
  then have "reduce_keepdims f (asarray A) (Some idxs) = Inl ValueError"
    by (simp add: reduce_keepdims_def na and_then_def)
  then show ?thesis by (simp add: reduction_def r and_then_def)
qed

lemma reduction_keepdims:
  assumes v: "length (dims A) = ndim A"
    and r: "multiple_axis_handler deq sub A s = Inr (Some (ds, idxs))"
    and d: "distinct (map (\<lambda>i. if i < 0 then i + int (ndim A) else i) idxs)"
  shows "\<exists>R. reduction f deq sub A s True dimerror = Inr R \<and> dims R = dims A
           \<and> shape R = map (\<lambda>k. if int k \<in> set idxs \<or> int k - int (ndim A) \<in> set idxs
                                then 1 else shape A ! k) [0..<ndim A]"
proof -
  let ?n = "ndim A"
  let ?p = "map (\<lambda>i. nat (if i < 0 then i + int ?n else i)) idxs"
  from multiple_axis_handler_range [OF r] v
  have rng: "\<forall>i \<in> set idxs. - int ?n \<le> i \<and> i < int ?n" by simp
  have na: "ndim (asarray A) = ?n" by (simp add: ndim_def asarray_def)
  have sa: "shape (asarray A) = shape A" by (simp add: asarray_def)
  have ca: "convert_axes ?n [] idxs = Inr ?p"
    using d by (simp add: convert_axes_in_range [OF rng] nat_norm_distinct [OF rng])
  have mem: "(k \<in> set ?p) = (int k \<in> set idxs \<or> int k - int ?n \<in> set idxs)" if "k < ?n" for k
  proof
    assume "k \<in> set ?p"
    then obtain i where i: "i \<in> set idxs" "k = nat (if i < 0 then i + int ?n else i)" by auto
    with rng have "- int ?n \<le> i" by simp
    show "int k \<in> set idxs \<or> int k - int ?n \<in> set idxs"
    proof (cases "i < 0")
      case True
      with i \<open>- int ?n \<le> i\<close> have "int k - int ?n = i" by simp
      with i(1) show ?thesis by simp
    next
      case False
      with i have "int k = i" by simp
      with i(1) show ?thesis by simp
    qed
  next
    assume a: "int k \<in> set idxs \<or> int k - int ?n \<in> set idxs"
    then show "k \<in> set ?p"
    proof
      assume "int k \<in> set idxs"
      then have "nat (if int k < 0 then int k + int ?n else int k) \<in> set ?p"
        unfolding set_map by (rule imageI)
      then show ?thesis by simp
    next
      assume m: "int k - int ?n \<in> set idxs"
      then have "nat (if int k - int ?n < 0 then int k - int ?n + int ?n else int k - int ?n) \<in> set ?p"
        unfolding set_map by (rule imageI)
      moreover have "int k - int ?n < 0" using that by simp
      ultimately show ?thesis by simp
    qed
  qed
  define rshape where "rshape = map (\<lambda>k. if k \<in> set ?p then 1 else shape A ! k) [0..<?n]"
  define relems where "relems = map (\<lambda>j. f (map (item (asarray A))
       (filter (\<lambda>i. list_all (\<lambda>k. k \<in> set ?p \<or> i ! k = j ! k) [0..<?n]) (indices (shape A)))))
       (indices rshape)"
  define res :: "'a hfarray" where "res = \<lparr>shape = rshape, elems = relems, dims = dims A\<rparr>"
  have rk: "reduce_keepdims f (asarray A) (Some idxs) = Inr \<lparr>shape = rshape, elems = relems\<rparr>"
    unfolding reduce_keepdims_def na sa rshape_def relems_def
    by (simp add: ca and_then_def Let_def)
  have lr: "length rshape = ?n" by (simp add: rshape_def)
  have hn: "hfarray_new (NdArray \<lparr>shape = rshape, elems = relems\<rparr>) (Some (dims A)) = Inr res"
    by (simp add: hfarray_new_def and_then_def verify_dimension_def ndim_def lr v [unfolded ndim_def]
        res_def)
  have t: "reduction f deq sub A s True dimerror = Inr res"
    by (simp add: reduction_def r rk hn and_then_def)
  have "rshape = map (\<lambda>k. if int k \<in> set idxs \<or> int k - int ?n \<in> set idxs
                             then 1 else shape A ! k) [0..<?n]"
  proof -
    have "(if k \<in> set ?p then 1 else shape A ! k)
          = (if int k \<in> set idxs \<or> int k - int ?n \<in> set idxs then 1 else shape A ! k)"
      if "k \<in> set [0..<?n]" for k
    proof -
      from that have "k < ?n" by simp
      from mem [OF this] show ?thesis by (simp only:)
    qed
    then show ?thesis unfolding rshape_def by (rule map_cong [OF refl])
  qed
  with t show ?thesis by (simp add: res_def)
qed

text \<open>
  C5 as amended. Let \<open>A\<close> be a labeled array and \<open>s\<close> an axis specifier that
  \<^verbatim>\<open>multiple_axis_handler\<close> resolves to the descriptors \<open>ds\<close> at the positions \<open>idxs\<close>; a
  negative position counts from the last axis.
  \<^item> When two of the positions name the same axis, \<^verbatim>\<open>A.sum(axis=s)\<close> raises \<^verbatim>\<open>ValueError\<close>,
    with and without \<^verbatim>\<open>keepdims\<close>.
  \<^item> When no two positions name the same axis, \<^verbatim>\<open>A.sum(axis=s, keepdims=True)\<close> raises
    nothing; the result has the descriptors of \<open>A\<close>, length 1 on the resolved axes and the
    lengths of \<open>A\<close> on the others.
  \<^item> When the positions are pairwise different and none is negative, \<^verbatim>\<open>A.sum(axis=s)\<close>
    raises nothing; the result has the descriptors and the axes of \<open>A\<close> at the positions that
    are not resolved, in their order, so that it has \<open>length idxs\<close> descriptors fewer.
\<close>

theorem sum_removes_resolved_axes:
  assumes "length (dims A) = ndim A"
    and "multiple_axis_handler deq sub A s = Inr (Some (ds, idxs))"
  shows "(\<not> distinct (map (\<lambda>i. if i < 0 then i + int (ndim A) else i) idxs) \<longrightarrow>
            sum_hf deq sub A s False dimerror = Inl ValueError
            \<and> sum_hf deq sub A s True dimerror = Inl ValueError)
       \<and> (distinct (map (\<lambda>i. if i < 0 then i + int (ndim A) else i) idxs) \<longrightarrow>
            (\<exists>R. sum_hf deq sub A s True dimerror = Inr R
               \<and> dims R = dims A
               \<and> shape R = map (\<lambda>k. if int k \<in> set idxs \<or> int k - int (ndim A) \<in> set idxs
                                    then 1 else shape A ! k) [0..<ndim A]))
       \<and> (distinct idxs \<and> (\<forall>i \<in> set idxs. 0 \<le> i) \<longrightarrow>
            (\<exists>R. sum_hf deq sub A s False dimerror = Inr R
               \<and> dims R = map (\<lambda>k. dims A ! k) (filter (\<lambda>k. int k \<notin> set idxs) [0..<ndim A])
               \<and> shape R = map (\<lambda>k. shape A ! k) (filter (\<lambda>k. int k \<notin> set idxs) [0..<ndim A])
               \<and> length (dims R) = length (dims A) - length idxs))"
proof (intro conjI impI)
  assume d: "\<not> distinct (map (\<lambda>i. if i < 0 then i + int (ndim A) else i) idxs)"
  show "sum_hf deq sub A s False dimerror = Inl ValueError"
    unfolding sum_hf_def by (rule reduction_duplicate [OF assms d])
  show "sum_hf deq sub A s True dimerror = Inl ValueError"
    unfolding sum_hf_def by (rule reduction_duplicate [OF assms d])
next
  assume d: "distinct (map (\<lambda>i. if i < 0 then i + int (ndim A) else i) idxs)"
  show "\<exists>R. sum_hf deq sub A s True dimerror = Inr R
               \<and> dims R = dims A
               \<and> shape R = map (\<lambda>k. if int k \<in> set idxs \<or> int k - int (ndim A) \<in> set idxs
                                    then 1 else shape A ! k) [0..<ndim A]"
    unfolding sum_hf_def by (rule reduction_keepdims [OF assms d])
next
  assume "distinct idxs \<and> (\<forall>i \<in> set idxs. 0 \<le> i)"
  then have d: "distinct idxs" and nn: "\<forall>i \<in> set idxs. 0 \<le> i" by simp_all
  from reduction_axes [OF assms d nn, of sum_list dimerror]
  show "\<exists>R. sum_hf deq sub A s False dimerror = Inr R
               \<and> dims R = map (\<lambda>k. dims A ! k) (filter (\<lambda>k. int k \<notin> set idxs) [0..<ndim A])
               \<and> shape R = map (\<lambda>k. shape A ! k) (filter (\<lambda>k. int k \<notin> set idxs) [0..<ndim A])
               \<and> length (dims R) = length (dims A) - length idxs"
    unfolding sum_hf_def by (rule conjunct1)
qed

theorem sum_removes_resolved_axes_witness:
  "(\<exists>R. sum_hf (\<lambda>x y. False) (\<lambda>c d. False)
          \<lparr>shape = [3, 2], elems = [1, 2, 3, 4, 5, 6 :: int],
      dims = [\<lparr>name = ''freq'', cls = DimSweep, data = [1, 2, 3], unit = None\<rparr>,
              \<lparr>name = ''rep'', cls = DimRep, data = [0, 1], unit = None\<rparr>]\<rparr>
          (One (AxName ''rep'')) False True = Inr R
       \<and> dims R = [\<lparr>name = ''freq'', cls = DimSweep, data = [1, 2, 3], unit = None\<rparr>]
       \<and> shape R = [3])
   \<and> (\<exists>R. sum_hf (\<lambda>x y. False) (\<lambda>c d. False)
          \<lparr>shape = [3, 2], elems = [1, 2, 3, 4, 5, 6 :: int],
      dims = [\<lparr>name = ''freq'', cls = DimSweep, data = [1, 2, 3], unit = None\<rparr>,
              \<lparr>name = ''rep'', cls = DimRep, data = [0, 1], unit = None\<rparr>]\<rparr>
          (One (AxInt (- 1))) True True = Inr R
       \<and> dims R = [\<lparr>name = ''freq'', cls = DimSweep, data = [1, 2, 3], unit = None\<rparr>, \<lparr>name = ''rep'', cls = DimRep, data = [0, 1], unit = None\<rparr>]
       \<and> shape R = [3, 1])"
proof -
  have v: "length (dims \<lparr>shape = [3, 2], elems = [1, 2, 3, 4, 5, 6 :: int],
      dims = [\<lparr>name = ''freq'', cls = DimSweep, data = [1, 2, 3], unit = None\<rparr>,
              \<lparr>name = ''rep'', cls = DimRep, data = [0, 1], unit = None\<rparr>]\<rparr>) = ndim \<lparr>shape = [3, 2], elems = [1, 2, 3, 4, 5, 6 :: int],
      dims = [\<lparr>name = ''freq'', cls = DimSweep, data = [1, 2, 3], unit = None\<rparr>,
              \<lparr>name = ''rep'', cls = DimRep, data = [0, 1], unit = None\<rparr>]\<rparr>" by (simp add: ndim_def)
  have r: "multiple_axis_handler (\<lambda>x y. False) (\<lambda>c d. False) \<lparr>shape = [3, 2], elems = [1, 2, 3, 4, 5, 6 :: int],
      dims = [\<lparr>name = ''freq'', cls = DimSweep, data = [1, 2, 3], unit = None\<rparr>,
              \<lparr>name = ''rep'', cls = DimRep, data = [0, 1], unit = None\<rparr>]\<rparr> (One (AxName ''rep''))
           = Inr (Some ([\<lparr>name = ''rep'', cls = DimRep, data = [0, 1], unit = None\<rparr>], [1]))"
    by (simp add: multiple_axis_handler_def and_then_def dims_index_def py_index_def resolve_dim_def same_dim_def isinstance_def py_list_index_def)
  have r': "multiple_axis_handler (\<lambda>x y. False) (\<lambda>c d. False) \<lparr>shape = [3, 2], elems = [1, 2, 3, 4, 5, 6 :: int],
      dims = [\<lparr>name = ''freq'', cls = DimSweep, data = [1, 2, 3], unit = None\<rparr>,
              \<lparr>name = ''rep'', cls = DimRep, data = [0, 1], unit = None\<rparr>]\<rparr> (One (AxInt (- 1)))
           = Inr (Some ([\<lparr>name = ''rep'', cls = DimRep, data = [0, 1], unit = None\<rparr>], [- 1]))"
    by (simp add: multiple_axis_handler_def and_then_def dims_index_def py_index_def resolve_dim_def same_dim_def isinstance_def py_list_index_def)
  from sum_removes_resolved_axes [OF v r, of True] sum_removes_resolved_axes [OF v r', of True]
  show ?thesis
    by (auto simp: ndim_def upt_rec)
qed

text \<open>
  C5, as the claim states it, fails: the specifier \<^verbatim>\<open>("freq", 0)\<close> resolves, to the sweep
  descriptor twice at position 0, and the reduction raises \<^verbatim>\<open>ValueError\<close>, with and
  without \<^verbatim>\<open>keepdims\<close>, because the runtime refuses an axis named twice.
\<close>

theorem sum_duplicate_axis_counterexample:
  "multiple_axis_handler (\<lambda>x y. False) (\<lambda>c d. False) \<lparr>shape = [3, 2], elems = [1, 2, 3, 4, 5, 6 :: int],
      dims = [\<lparr>name = ''freq'', cls = DimSweep, data = [1, 2, 3], unit = None\<rparr>,
              \<lparr>name = ''rep'', cls = DimRep, data = [0, 1], unit = None\<rparr>]\<rparr> (Many [AxName ''freq'', AxInt 0])
     = Inr (Some ([\<lparr>name = ''freq'', cls = DimSweep, data = [1, 2, 3], unit = None\<rparr>, \<lparr>name = ''freq'', cls = DimSweep, data = [1, 2, 3], unit = None\<rparr>], [0, 0]))
   \<and> sum_hf (\<lambda>x y. False) (\<lambda>c d. False) \<lparr>shape = [3, 2], elems = [1, 2, 3, 4, 5, 6 :: int],
      dims = [\<lparr>name = ''freq'', cls = DimSweep, data = [1, 2, 3], unit = None\<rparr>,
              \<lparr>name = ''rep'', cls = DimRep, data = [0, 1], unit = None\<rparr>]\<rparr> (Many [AxName ''freq'', AxInt 0]) False True
     = Inl ValueError
   \<and> sum_hf (\<lambda>x y. False) (\<lambda>c d. False) \<lparr>shape = [3, 2], elems = [1, 2, 3, 4, 5, 6 :: int],
      dims = [\<lparr>name = ''freq'', cls = DimSweep, data = [1, 2, 3], unit = None\<rparr>,
              \<lparr>name = ''rep'', cls = DimRep, data = [0, 1], unit = None\<rparr>]\<rparr> (Many [AxName ''freq'', AxInt 0]) True True
     = Inl ValueError"
  by (simp add: sum_hf_def reduction_def multiple_axis_handler_def and_then_def dims_index_def py_index_def resolve_dim_def same_dim_def isinstance_def py_list_index_def reduce_keepdims_def ndim_def asarray_def normalize_axis_def hfarray_new_def verify_dimension_def squeeze_hf_def ndarray_squeeze_def item_def upt_rec)

text \<open>
  A negative position resolves as well, but \<^verbatim>\<open>squeeze\<close> compares the positions of the
  descriptors with it as they are (\<^verbatim>\<open>idx not in dimidxs\<close>), keeps every descriptor while the
  buffer loses the axis, and the constructor raises.
\<close>

lemma sum_negative_axis:
  "multiple_axis_handler (\<lambda>x y. False) (\<lambda>c d. False) \<lparr>shape = [3, 2], elems = [1, 2, 3, 4, 5, 6 :: int],
      dims = [\<lparr>name = ''freq'', cls = DimSweep, data = [1, 2, 3], unit = None\<rparr>,
              \<lparr>name = ''rep'', cls = DimRep, data = [0, 1], unit = None\<rparr>]\<rparr> (One (AxInt (- 1)))
     = Inr (Some ([\<lparr>name = ''rep'', cls = DimRep, data = [0, 1], unit = None\<rparr>], [- 1]))
   \<and> sum_hf (\<lambda>x y. False) (\<lambda>c d. False) \<lparr>shape = [3, 2], elems = [1, 2, 3, 4, 5, 6 :: int],
      dims = [\<lparr>name = ''freq'', cls = DimSweep, data = [1, 2, 3], unit = None\<rparr>,
              \<lparr>name = ''rep'', cls = DimRep, data = [0, 1], unit = None\<rparr>]\<rparr> (One (AxInt (- 1))) False True
     = Inl HFArrayShapeDimsMismatchError"
  by (simp add: sum_hf_def reduction_def multiple_axis_handler_def and_then_def dims_index_def py_index_def resolve_dim_def same_dim_def isinstance_def py_list_index_def reduce_keepdims_def ndim_def asarray_def normalize_axis_def hfarray_new_def verify_dimension_def squeeze_hf_def ndarray_squeeze_def item_def upt_rec)

subsection \<open>Operators align their operands\<close>



subsection \<open>The rank invariant\<close>

lemma hfarray_new_rank:
  assumes "hfarray_new d ds = Inr R"
  shows "length (dims R) = ndim R"
  using assms
  by (auto simp: hfarray_new_def verify_dimension_def and_then_def Let_def ndim_def
      split: sum.splits option.splits pyobj.splits if_splits)

lemma transpose_hf_rank:
  assumes "transpose_hf A order_arg = Inr R"
  shows "length (dims R) = ndim R"
  using assms hfarray_new_rank
  by (auto simp: transpose_hf_def and_then_def Let_def split: sum.splits)

lemma squeeze_hf_rank:
  assumes "squeeze_hf deq sub A axis = Inr R"
  shows "length (dims R) = ndim R"
  using assms hfarray_new_rank
  by (auto simp: squeeze_hf_def and_then_def split: sum.splits)

lemma reduction_rank:
  assumes "reduction f deq sub A axis keepdims dimerror = Inr R" and "length (dims A) = ndim A"
  shows "length (dims R) = ndim R"
  using assms hfarray_new_rank squeeze_hf_rank
  by (auto simp: reduction_def and_then_def split: sum.splits if_splits)


lemma view_hf_Inr:
  assumes "view_hf x = Inr y"
  shows "y = x \<and> length (dims x) = ndim x"
  using assms
  by (auto simp: view_hf_def hfarray_new_def verify_dimension_def and_then_def asarray_def ndim_def
      Let_def split: if_splits)

lemma change_shape_rank:
  assumes "change_shape sub x nd = Inr R"
  shows "dims R = nd \<and> ndim R = length nd"
proof -
  from assms obtain y where y: "view_hf x = Inr y"
    by (auto simp: change_shape_def and_then_def split: sum.splits)
  from view_hf_Inr [OF y] have yx: "y = x" and v: "length (dims x) = ndim x" by simp_all
  note so = shape_and_order_owner [OF v, of sub nd]
  from assms show ?thesis
    unfolding change_shape_def y yx so
    by (auto simp: and_then_def shape_setter_def dims_setter_def ndim_def split: sum.splits if_splits)
qed

lemma broadcast_shapes_length:
  assumes "broadcast_shapes s t = Inr rs"
  shows "length rs = max (length s) (length t)"
  using assms
  by (auto simp: broadcast_shapes_def pad_shape_def Let_def split: if_splits)

lemma ndarray_binop_rank:
  assumes "ndarray_binop f a (HfArray b) = Inr R" and "ndim a = n" and "ndim b = n"
  shows "dims R = dims a \<and> ndim R = n"
  using assms broadcast_shapes_length [of "shape a" "shape b"]
  by (auto simp: ndarray_binop_def ufunc_def and_then_def ndim_def split: sum.splits)

lemma operator_rank:
  assumes r: "check_instance (ndarray_binop f) sub prio A other = Inr R"
    and v: "length (dims A) = ndim A"
  shows "length (dims R) = ndim R"
proof (cases other)
  case (Number x)
  with r v show ?thesis by (auto simp: check_instance_def ndarray_binop_def ndim_def)
next
  case (NdArray b)
  with r obtain oth a' b' where
    ms: "make_same_dims sub prio A (HfArray oth) = Inr [a', b']"
    and f: "ndarray_binop f a' (HfArray b') = Inr R"
    by (auto simp: check_instance_def and_then_def split: sum.splits list.splits)
  from ms obtain nd where a: "change_shape sub A nd = Inr a'" and b: "change_shape sub oth nd = Inr b'"
    by (auto simp: make_same_dims_def make_same_dims_list_def and_then_def split: sum.splits)
  from change_shape_rank [OF a] change_shape_rank [OF b] ndarray_binop_rank [OF f, of "length nd"]
  show ?thesis by simp
next
  case (HfArray b)
  with r obtain oth a' b' where
    ms: "make_same_dims sub prio A (HfArray oth) = Inr [a', b']"
    and f: "ndarray_binop f a' (HfArray b') = Inr R"
    by (auto simp: check_instance_def and_then_def split: sum.splits list.splits)
  from ms obtain nd where a: "change_shape sub A nd = Inr a'" and b: "change_shape sub oth nd = Inr b'"
    by (auto simp: make_same_dims_def make_same_dims_list_def and_then_def split: sum.splits)
  from change_shape_rank [OF a] change_shape_rank [OF b] ndarray_binop_rank [OF f, of "length nd"]
  show ?thesis by simp
qed

text \<open>
  C1. The lemmas above give the rank invariant for the results of the constructor, of
  \<^verbatim>\<open>transpose\<close>, \<^verbatim>\<open>squeeze\<close>, the reductions, \<^verbatim>\<open>change_shape\<close> and the operators under
  \<^verbatim>\<open>check_instance\<close>. A comparison other than \<^verbatim>\<open>==\<close> breaks it. Let \<open>A\<close> have the dimension
  \<open>freq\<close> and shape \<open>(3,)\<close>, and \<open>B\<close> the dimensions \<open>rep, freq\<close> and shape \<open>(2, 3)\<close>. Then
  \<^verbatim>\<open>A > B\<close> returns a labeled array of shape \<open>(2, 3)\<close> that carries the one descriptor of
  \<open>A\<close>, so the length of its dimension collection is not its rank; no exception is
  raised. \<^verbatim>\<open>A + B\<close>, which goes through \<^verbatim>\<open>check_instance\<close>, aligns the operands and returns
  shape \<open>(3, 2)\<close> with the dimensions \<open>freq, rep\<close>.
\<close>

theorem comparison_breaks_rank_invariant:
  "gt_hf \<lparr>shape = [3], elems = [1, 2, 3 :: int],
           dims = [\<lparr>name = ''freq'', cls = DimSweep, data = [1, 2, 3], unit = None\<rparr>]\<rparr>
     (HfArray \<lparr>shape = [2, 3], elems = [0, 0, 0, 5, 5, 5],
               dims = [\<lparr>name = ''rep'', cls = DimRep, data = [0, 1], unit = None\<rparr>,
                       \<lparr>name = ''freq'', cls = DimSweep, data = [1, 2, 3], unit = None\<rparr>]\<rparr>)
   = Inr \<lparr>shape = [2, 3], elems = [True, True, True, False, False, False],
          dims = [\<lparr>name = ''freq'', cls = DimSweep, data = [1, 2, 3], unit = None\<rparr>]\<rparr>
   \<and> length (dims \<lparr>shape = [2, 3], elems = [True, True, True, False, False, False],
          dims = [\<lparr>name = ''freq'', cls = DimSweep, data = [1, 2, 3], unit = None\<rparr>]\<rparr>)
     \<noteq> ndim \<lparr>shape = [2, 3], elems = [True, True, True, False, False, False],
          dims = [\<lparr>name = ''freq'', cls = DimSweep, data = [1, 2, 3], unit = None\<rparr>]\<rparr>
   \<and> add_hf (\<lambda>c d. d = DimBase \<and> c \<noteq> DimBase)
       (\<lambda>c. if c = DimSweep then 0 else if c = DimRep then 1 else 1000)
       \<lparr>shape = [3], elems = [1, 2, 3 :: int],
        dims = [\<lparr>name = ''freq'', cls = DimSweep, data = [1, 2, 3], unit = None\<rparr>]\<rparr>
       (HfArray \<lparr>shape = [2, 3], elems = [0, 0, 0, 5, 5, 5],
               dims = [\<lparr>name = ''rep'', cls = DimRep, data = [0, 1], unit = None\<rparr>,
                       \<lparr>name = ''freq'', cls = DimSweep, data = [1, 2, 3], unit = None\<rparr>]\<rparr>)
     = Inr \<lparr>shape = [3, 2], elems = [1, 6, 2, 7, 3, 8],
            dims = [\<lparr>name = ''freq'', cls = DimSweep, data = [1, 2, 3], unit = None\<rparr>,
                    \<lparr>name = ''rep'', cls = DimRep, data = [0, 1], unit = None\<rparr>]\<rparr>"
  by (simp add: gt_hf_def ndarray_compare_def compare_ufunc_def broadcast_shapes_def pad_shape_def
      and_then_def broadcast_index_def item_def ndim_def upt_rec
      add_hf_def check_instance_def hfarray_new_def verify_dimension_def asarray_def
      make_same_dims_def make_same_dims_list_def dims_union_def sortprio_def same_dim_def
      isinstance_def change_shape_def view_hf_def matching_index_def py_index_def transpose_hf_def
      ndarray_transpose_def normalize_axis_def permute_axes_def source_index_def shape_setter_def
      dims_setter_def ndarray_binop_def ufunc_def)

end
